theory Spec2Isabelle
  imports Main "HOL-Library.Word"
begin

section \<open>The logging decorator of the binary reader\<close>

text \<open>
  A shallow embedding of \<^verbatim>\<open>src/binary-reader-logging.cc\<close>: the class
  \<^verbatim>\<open>BinaryReaderLogging\<close> receives every callback of the binary reader, writes a
  trace line to a stream and forwards the callback to a wrapped delegate.
  The embedding keeps the source's statement order inside every method. Three
  things the methods do are made explicit:
  \<^item> the bytes written to \<^verbatim>\<open>stream_\<close> and the calls made on \<^verbatim>\<open>reader_\<close> are
    recorded, in the order they happen, in one list of effects;
  \<^item> a failing \<^verbatim>\<open>assert\<close> and a read past the end of an array end the run with a
    fault, the state being the one reached at that moment;
  \<^item> the wrapped delegate is an arbitrary step function on its own state.
\<close>

subsection \<open>Argument types\<close>

text \<open>
  The header files are not part of the sources at hand, so the scalar types are
  taken as the reader's interface uses them: \<^verbatim>\<open>Index\<close> and \<^verbatim>\<open>Address\<close> are
  32-bit unsigned, \<^verbatim>\<open>Offset\<close> is \<^verbatim>\<open>size_t\<close> (64 bits), the enumerations are their
  32-bit underlying values. A (count, pointer) pair of arguments is one list,
  the count being its length.
\<close>

type_synonym Index = "32 word"
type_synonym Address = "32 word"
type_synonym Offset = "64 word"
type_synonym Type = "32 word"
type_synonym Opcode = "32 word"
type_synonym BinarySection = "32 word"
type_synonym ExternalKind = "32 word"
type_synonym RelocType = "32 word"
type_synonym SymbolType = "32 word"
type_synonym ComdatType = "32 word"
type_synonym string_view = string
type_synonym Error = string
type_synonym State = "64 word"

record Limits =
  initial :: "64 word"
  max' :: "64 word"
  has_max :: bool

text \<open>\<^verbatim>\<open>struct v128 { uint32_t v[4]; }\<close>: four lanes, read by index.\<close>

datatype v128 = V128 "32 word" "32 word" "32 word" "32 word"

fun v :: "v128 \<Rightarrow> nat \<Rightarrow> 32 word" where
  "v (V128 a b c d) i = [a, b, c, d] ! i"

datatype Result = Ok | Error

text \<open>
  What a callback returns: \<^verbatim>\<open>Result\<close> for all but \<^verbatim>\<open>OnError\<close> (a \<^verbatim>\<open>bool\<close>) and
  \<^verbatim>\<open>OnSetState\<close> (\<^verbatim>\<open>void\<close>).
\<close>

datatype retval = ResultVal Result | BoolVal bool | VoidVal

text \<open>
  Functions and tables the methods call and the sources at hand do not define
  are parameters of the model: the type predicates and name tables of
  \<^verbatim>\<open>common.h\<close> and \<^verbatim>\<open>opcode.h\<close>, and the C library's rendering of a \<^verbatim>\<open>float\<close> or
  \<^verbatim>\<open>double\<close> under \<^verbatim>\<open>%g\<close>, given here as a function of the bit pattern.
\<close>

record externals =
  IsTypeIndex :: "Type \<Rightarrow> bool"
  GetTypeName :: "Type \<Rightarrow> string"
  GetKindName :: "ExternalKind \<Rightarrow> string"
  GetRelocTypeName :: "RelocType \<Rightarrow> string"
  GetSymbolTypeName :: "SymbolType \<Rightarrow> string"
  Opcode_GetName :: "Opcode \<Rightarrow> string"
  Opcode_GetCode :: "Opcode \<Rightarrow> 32 word"
  printf_g32 :: "32 word \<Rightarrow> string"
  printf_g64 :: "64 word \<Rightarrow> string"

subsection \<open>The conversions of \<^verbatim>\<open>printf\<close> the format strings use\<close>

definition digit :: "nat \<Rightarrow> char" where
  "digit n = ''0123456789abcdef'' ! n"

fun dec :: "nat \<Rightarrow> string" where
  "dec n = (if n < 10 then [digit n] else dec (n div 10) @ [digit (n mod 10)])"

fun hex :: "nat \<Rightarrow> string" where
  "hex n = (if n < 16 then [digit n] else hex (n div 16) @ [digit (n mod 16)])"

declare dec.simps [simp del] hex.simps [simp del]

text \<open>
  \<^verbatim>\<open>%u\<close>, \<^verbatim>\<open>PRIu64\<close>, \<^verbatim>\<open>PRIindex\<close> and \<^verbatim>\<open>PRIaddress\<close> print the unsigned value;
  \<^verbatim>\<open>%d\<close> and \<^verbatim>\<open>PRIzd\<close> (\<^verbatim>\<open>%zd\<close>) print the same bits read as two's complement;
  \<^verbatim>\<open>%x\<close> and \<^verbatim>\<open>PRIx64\<close> print hexadecimal without padding, \<^verbatim>\<open>%08x\<close> pads with
  zeros to eight digits; \<^verbatim>\<open>PRIstringview\<close> (\<^verbatim>\<open>%.*s\<close>) prints the bytes of the view
  up to its length, stopping at a NUL byte.
\<close>

definition fmt_u :: "'a::len word \<Rightarrow> string" where
  "fmt_u w = dec (unat w)"

definition fmt_d :: "'a::len word \<Rightarrow> string" where
  "fmt_d w = (if sint w < 0 then CHR ''-'' # dec (nat (- sint w)) else dec (nat (sint w)))"

definition fmt_x :: "'a::len word \<Rightarrow> string" where
  "fmt_x w = hex (unat w)"

definition fmt_08x :: "32 word \<Rightarrow> string" where
  "fmt_08x w = replicate (8 - length (hex (unat w))) (CHR ''0'') @ hex (unat w)"

definition fmt_sv :: "string_view \<Rightarrow> string" where
  "fmt_sv s = takeWhile (\<lambda>c. c \<noteq> CHR 0x00) s"

definition fmt_bool :: "bool \<Rightarrow> string" where
  "fmt_bool b = (if b then ''true'' else ''false'')"

subsection \<open>The callbacks of the interface\<close>

text \<open>
  Most methods are generated by macros that take the method's name; the names
  each macro is instantiated with are the constructors of one enumeration, in
  the source's order, and \<^verbatim>\<open>#name\<close> is the function giving the name's text.
\<close>

text \<open>The instances of \<^verbatim>\<open>DEFINE_BEGIN\<close>.\<close>

datatype begin_name =
    BeginTypeSection | BeginImportSection | BeginFunctionSection | BeginTableSection
    | BeginMemorySection | BeginGlobalSection | BeginExportSection | BeginStartSection
    | BeginCodeSection | BeginElemSection | BeginDataSection | BeginDataCountSection
    | BeginNamesSection | BeginRelocSection | BeginDylinkSection | BeginLinkingSection
    | BeginEventSection

primrec begin_name_str :: "begin_name \<Rightarrow> string" where
  "begin_name_str BeginTypeSection = ''BeginTypeSection''"
| "begin_name_str BeginImportSection = ''BeginImportSection''"
| "begin_name_str BeginFunctionSection = ''BeginFunctionSection''"
| "begin_name_str BeginTableSection = ''BeginTableSection''"
| "begin_name_str BeginMemorySection = ''BeginMemorySection''"
| "begin_name_str BeginGlobalSection = ''BeginGlobalSection''"
| "begin_name_str BeginExportSection = ''BeginExportSection''"
| "begin_name_str BeginStartSection = ''BeginStartSection''"
| "begin_name_str BeginCodeSection = ''BeginCodeSection''"
| "begin_name_str BeginElemSection = ''BeginElemSection''"
| "begin_name_str BeginDataSection = ''BeginDataSection''"
| "begin_name_str BeginDataCountSection = ''BeginDataCountSection''"
| "begin_name_str BeginNamesSection = ''BeginNamesSection''"
| "begin_name_str BeginRelocSection = ''BeginRelocSection''"
| "begin_name_str BeginDylinkSection = ''BeginDylinkSection''"
| "begin_name_str BeginLinkingSection = ''BeginLinkingSection''"
| "begin_name_str BeginEventSection = ''BeginEventSection''"

text \<open>The instances of \<^verbatim>\<open>DEFINE_END\<close>.\<close>

datatype end_name =
    EndModule | EndCustomSection | EndTypeSection | EndImportSection
    | EndFunctionSection | EndTableSection | EndMemorySection | EndGlobalSection
    | EndExportSection | EndStartSection | EndCodeSection | EndElemSection
    | EndDataSection | EndDataCountSection | EndNamesSection | EndRelocSection
    | EndDylinkSection | EndLinkingSection | EndEventSection

primrec end_name_str :: "end_name \<Rightarrow> string" where
  "end_name_str EndModule = ''EndModule''"
| "end_name_str EndCustomSection = ''EndCustomSection''"
| "end_name_str EndTypeSection = ''EndTypeSection''"
| "end_name_str EndImportSection = ''EndImportSection''"
| "end_name_str EndFunctionSection = ''EndFunctionSection''"
| "end_name_str EndTableSection = ''EndTableSection''"
| "end_name_str EndMemorySection = ''EndMemorySection''"
| "end_name_str EndGlobalSection = ''EndGlobalSection''"
| "end_name_str EndExportSection = ''EndExportSection''"
| "end_name_str EndStartSection = ''EndStartSection''"
| "end_name_str EndCodeSection = ''EndCodeSection''"
| "end_name_str EndElemSection = ''EndElemSection''"
| "end_name_str EndDataSection = ''EndDataSection''"
| "end_name_str EndDataCountSection = ''EndDataCountSection''"
| "end_name_str EndNamesSection = ''EndNamesSection''"
| "end_name_str EndRelocSection = ''EndRelocSection''"
| "end_name_str EndDylinkSection = ''EndDylinkSection''"
| "end_name_str EndLinkingSection = ''EndLinkingSection''"
| "end_name_str EndEventSection = ''EndEventSection''"

text \<open>The instances of \<^verbatim>\<open>DEFINE_INDEX\<close>.\<close>

datatype index_name =
    OnTypeCount | OnImportCount | OnFunctionCount | OnTableCount | OnMemoryCount
    | OnGlobalCount | BeginGlobalInitExpr | EndGlobalInitExpr | EndGlobal
    | OnExportCount | OnStartFunction | OnFunctionBodyCount | EndFunctionBody
    | OnLocalDeclCount | OnDataDropExpr | OnMemoryInitExpr | OnElemDropExpr
    | OnTableInitExpr | OnTableSetExpr | OnTableGetExpr | OnTableGrowExpr
    | OnTableSizeExpr | OnElemSegmentCount | BeginElemSegmentInitExpr
    | EndElemSegmentInitExpr | OnElemSegmentElemExpr_RefNull | EndElemSegment
    | OnDataSegmentCount | BeginDataSegmentInitExpr | EndDataSegmentInitExpr
    | EndDataSegment | OnDataCount | OnFunctionNamesCount | OnLocalNameFunctionCount
    | OnDylinkNeededCount | OnSymbolCount | OnSegmentInfoCount | OnInitFunctionCount
    | OnComdatCount | OnEventCount

primrec index_name_str :: "index_name \<Rightarrow> string" where
  "index_name_str OnTypeCount = ''OnTypeCount''"
| "index_name_str OnImportCount = ''OnImportCount''"
| "index_name_str OnFunctionCount = ''OnFunctionCount''"
| "index_name_str OnTableCount = ''OnTableCount''"
| "index_name_str OnMemoryCount = ''OnMemoryCount''"
| "index_name_str OnGlobalCount = ''OnGlobalCount''"
| "index_name_str BeginGlobalInitExpr = ''BeginGlobalInitExpr''"
| "index_name_str EndGlobalInitExpr = ''EndGlobalInitExpr''"
| "index_name_str EndGlobal = ''EndGlobal''"
| "index_name_str OnExportCount = ''OnExportCount''"
| "index_name_str OnStartFunction = ''OnStartFunction''"
| "index_name_str OnFunctionBodyCount = ''OnFunctionBodyCount''"
| "index_name_str EndFunctionBody = ''EndFunctionBody''"
| "index_name_str OnLocalDeclCount = ''OnLocalDeclCount''"
| "index_name_str OnDataDropExpr = ''OnDataDropExpr''"
| "index_name_str OnMemoryInitExpr = ''OnMemoryInitExpr''"
| "index_name_str OnElemDropExpr = ''OnElemDropExpr''"
| "index_name_str OnTableInitExpr = ''OnTableInitExpr''"
| "index_name_str OnTableSetExpr = ''OnTableSetExpr''"
| "index_name_str OnTableGetExpr = ''OnTableGetExpr''"
| "index_name_str OnTableGrowExpr = ''OnTableGrowExpr''"
| "index_name_str OnTableSizeExpr = ''OnTableSizeExpr''"
| "index_name_str OnElemSegmentCount = ''OnElemSegmentCount''"
| "index_name_str BeginElemSegmentInitExpr = ''BeginElemSegmentInitExpr''"
| "index_name_str EndElemSegmentInitExpr = ''EndElemSegmentInitExpr''"
| "index_name_str OnElemSegmentElemExpr_RefNull = ''OnElemSegmentElemExpr_RefNull''"
| "index_name_str EndElemSegment = ''EndElemSegment''"
| "index_name_str OnDataSegmentCount = ''OnDataSegmentCount''"
| "index_name_str BeginDataSegmentInitExpr = ''BeginDataSegmentInitExpr''"
| "index_name_str EndDataSegmentInitExpr = ''EndDataSegmentInitExpr''"
| "index_name_str EndDataSegment = ''EndDataSegment''"
| "index_name_str OnDataCount = ''OnDataCount''"
| "index_name_str OnFunctionNamesCount = ''OnFunctionNamesCount''"
| "index_name_str OnLocalNameFunctionCount = ''OnLocalNameFunctionCount''"
| "index_name_str OnDylinkNeededCount = ''OnDylinkNeededCount''"
| "index_name_str OnSymbolCount = ''OnSymbolCount''"
| "index_name_str OnSegmentInfoCount = ''OnSegmentInfoCount''"
| "index_name_str OnInitFunctionCount = ''OnInitFunctionCount''"
| "index_name_str OnComdatCount = ''OnComdatCount''"
| "index_name_str OnEventCount = ''OnEventCount''"

text \<open>The instances of \<^verbatim>\<open>DEFINE_INDEX_DESC\<close>.\<close>

datatype index_desc_name =
    OnCallExpr | OnGlobalGetExpr | OnGlobalSetExpr | OnLocalGetExpr | OnLocalSetExpr
    | OnLocalTeeExpr | OnReturnCallExpr | OnThrowExpr

primrec index_desc_name_str :: "index_desc_name \<Rightarrow> string" where
  "index_desc_name_str OnCallExpr = ''OnCallExpr''"
| "index_desc_name_str OnGlobalGetExpr = ''OnGlobalGetExpr''"
| "index_desc_name_str OnGlobalSetExpr = ''OnGlobalSetExpr''"
| "index_desc_name_str OnLocalGetExpr = ''OnLocalGetExpr''"
| "index_desc_name_str OnLocalSetExpr = ''OnLocalSetExpr''"
| "index_desc_name_str OnLocalTeeExpr = ''OnLocalTeeExpr''"
| "index_desc_name_str OnReturnCallExpr = ''OnReturnCallExpr''"
| "index_desc_name_str OnThrowExpr = ''OnThrowExpr''"

primrec index_desc_name_desc :: "index_desc_name \<Rightarrow> string" where
  "index_desc_name_desc OnCallExpr = ''func_index''"
| "index_desc_name_desc OnGlobalGetExpr = ''index''"
| "index_desc_name_desc OnGlobalSetExpr = ''index''"
| "index_desc_name_desc OnLocalGetExpr = ''index''"
| "index_desc_name_desc OnLocalSetExpr = ''index''"
| "index_desc_name_desc OnLocalTeeExpr = ''index''"
| "index_desc_name_desc OnReturnCallExpr = ''func_index''"
| "index_desc_name_desc OnThrowExpr = ''event_index''"

text \<open>The instances of \<^verbatim>\<open>DEFINE_INDEX_INDEX\<close>.\<close>

datatype index_index_name =
    OnFunction | OnBrOnExnExpr | OnCallIndirectExpr | OnReturnCallIndirectExpr
    | OnElemSegmentElemExprCount | OnElemSegmentElemExpr_RefFunc
    | OnLocalNameLocalCount | OnInitExprGlobalGetExpr | OnEventType

primrec index_index_name_str :: "index_index_name \<Rightarrow> string" where
  "index_index_name_str OnFunction = ''OnFunction''"
| "index_index_name_str OnBrOnExnExpr = ''OnBrOnExnExpr''"
| "index_index_name_str OnCallIndirectExpr = ''OnCallIndirectExpr''"
| "index_index_name_str OnReturnCallIndirectExpr = ''OnReturnCallIndirectExpr''"
| "index_index_name_str OnElemSegmentElemExprCount = ''OnElemSegmentElemExprCount''"
| "index_index_name_str OnElemSegmentElemExpr_RefFunc = ''OnElemSegmentElemExpr_RefFunc''"
| "index_index_name_str OnLocalNameLocalCount = ''OnLocalNameLocalCount''"
| "index_index_name_str OnInitExprGlobalGetExpr = ''OnInitExprGlobalGetExpr''"
| "index_index_name_str OnEventType = ''OnEventType''"

primrec index_index_name_desc0 :: "index_index_name \<Rightarrow> string" where
  "index_index_name_desc0 OnFunction = ''index''"
| "index_index_name_desc0 OnBrOnExnExpr = ''depth''"
| "index_index_name_desc0 OnCallIndirectExpr = ''sig_index''"
| "index_index_name_desc0 OnReturnCallIndirectExpr = ''sig_index''"
| "index_index_name_desc0 OnElemSegmentElemExprCount = ''index''"
| "index_index_name_desc0 OnElemSegmentElemExpr_RefFunc = ''index''"
| "index_index_name_desc0 OnLocalNameLocalCount = ''index''"
| "index_index_name_desc0 OnInitExprGlobalGetExpr = ''index''"
| "index_index_name_desc0 OnEventType = ''index''"

primrec index_index_name_desc1 :: "index_index_name \<Rightarrow> string" where
  "index_index_name_desc1 OnFunction = ''sig_index''"
| "index_index_name_desc1 OnBrOnExnExpr = ''event_index''"
| "index_index_name_desc1 OnCallIndirectExpr = ''table_index''"
| "index_index_name_desc1 OnReturnCallIndirectExpr = ''table_index''"
| "index_index_name_desc1 OnElemSegmentElemExprCount = ''count''"
| "index_index_name_desc1 OnElemSegmentElemExpr_RefFunc = ''func_index''"
| "index_index_name_desc1 OnLocalNameLocalCount = ''count''"
| "index_index_name_desc1 OnInitExprGlobalGetExpr = ''global_index''"
| "index_index_name_desc1 OnEventType = ''sig_index''"

text \<open>The instances of \<^verbatim>\<open>DEFINE_INDEX_INDEX_BOOL\<close>.\<close>

datatype index_index_bool_name =
    BeginDataSegment

primrec index_index_bool_name_str :: "index_index_bool_name \<Rightarrow> string" where
  "index_index_bool_name_str BeginDataSegment = ''BeginDataSegment''"

primrec index_index_bool_name_desc0 :: "index_index_bool_name \<Rightarrow> string" where
  "index_index_bool_name_desc0 BeginDataSegment = ''index''"

primrec index_index_bool_name_desc1 :: "index_index_bool_name \<Rightarrow> string" where
  "index_index_bool_name_desc1 BeginDataSegment = ''memory_index''"

primrec index_index_bool_name_desc2 :: "index_index_bool_name \<Rightarrow> string" where
  "index_index_bool_name_desc2 BeginDataSegment = ''passive''"

text \<open>The instances of \<^verbatim>\<open>DEFINE_OPCODE\<close>.\<close>

datatype opcode_name =
    OnBinaryExpr | OnCompareExpr | OnConvertExpr | OnUnaryExpr | OnTernaryExpr

primrec opcode_name_str :: "opcode_name \<Rightarrow> string" where
  "opcode_name_str OnBinaryExpr = ''OnBinaryExpr''"
| "opcode_name_str OnCompareExpr = ''OnCompareExpr''"
| "opcode_name_str OnConvertExpr = ''OnConvertExpr''"
| "opcode_name_str OnUnaryExpr = ''OnUnaryExpr''"
| "opcode_name_str OnTernaryExpr = ''OnTernaryExpr''"

text \<open>The instances of \<^verbatim>\<open>DEFINE_LOAD_STORE_OPCODE\<close>.\<close>

datatype load_store_opcode_name =
    OnAtomicLoadExpr | OnAtomicRmwExpr | OnAtomicRmwCmpxchgExpr | OnAtomicStoreExpr
    | OnAtomicWaitExpr | OnAtomicNotifyExpr | OnLoadExpr | OnStoreExpr

primrec load_store_opcode_name_str :: "load_store_opcode_name \<Rightarrow> string" where
  "load_store_opcode_name_str OnAtomicLoadExpr = ''OnAtomicLoadExpr''"
| "load_store_opcode_name_str OnAtomicRmwExpr = ''OnAtomicRmwExpr''"
| "load_store_opcode_name_str OnAtomicRmwCmpxchgExpr = ''OnAtomicRmwCmpxchgExpr''"
| "load_store_opcode_name_str OnAtomicStoreExpr = ''OnAtomicStoreExpr''"
| "load_store_opcode_name_str OnAtomicWaitExpr = ''OnAtomicWaitExpr''"
| "load_store_opcode_name_str OnAtomicNotifyExpr = ''OnAtomicNotifyExpr''"
| "load_store_opcode_name_str OnLoadExpr = ''OnLoadExpr''"
| "load_store_opcode_name_str OnStoreExpr = ''OnStoreExpr''"

text \<open>The instances of \<^verbatim>\<open>DEFINE0\<close>.\<close>

datatype define0_name =
    OnCatchExpr | OnDropExpr | OnElseExpr | OnEndExpr | OnMemoryCopyExpr
    | OnMemoryFillExpr | OnMemoryGrowExpr | OnMemorySizeExpr | OnTableCopyExpr
    | OnRefNullExpr | OnRefIsNullExpr | OnNopExpr | OnRethrowExpr | OnReturnExpr
    | OnSelectExpr | OnUnreachableExpr

primrec define0_name_str :: "define0_name \<Rightarrow> string" where
  "define0_name_str OnCatchExpr = ''OnCatchExpr''"
| "define0_name_str OnDropExpr = ''OnDropExpr''"
| "define0_name_str OnElseExpr = ''OnElseExpr''"
| "define0_name_str OnEndExpr = ''OnEndExpr''"
| "define0_name_str OnMemoryCopyExpr = ''OnMemoryCopyExpr''"
| "define0_name_str OnMemoryFillExpr = ''OnMemoryFillExpr''"
| "define0_name_str OnMemoryGrowExpr = ''OnMemoryGrowExpr''"
| "define0_name_str OnMemorySizeExpr = ''OnMemorySizeExpr''"
| "define0_name_str OnTableCopyExpr = ''OnTableCopyExpr''"
| "define0_name_str OnRefNullExpr = ''OnRefNullExpr''"
| "define0_name_str OnRefIsNullExpr = ''OnRefIsNullExpr''"
| "define0_name_str OnNopExpr = ''OnNopExpr''"
| "define0_name_str OnRethrowExpr = ''OnRethrowExpr''"
| "define0_name_str OnReturnExpr = ''OnReturnExpr''"
| "define0_name_str OnSelectExpr = ''OnSelectExpr''"
| "define0_name_str OnUnreachableExpr = ''OnUnreachableExpr''"

text \<open>
  The methods written out by hand, grouped in the source's order. The last
  group holds the callbacks the source forwards without logging.
\<close>

datatype core_call =
    OnError Error
  | OnSetState State
  | BeginModule "32 word"
  | BeginSection Index BinarySection Offset
  | BeginCustomSection Offset string_view
  | OnType Index "Type list" "Type list"

datatype import_call =
    OnImport Index string_view string_view
  | OnImportFunc Index string_view string_view Index Index
  | OnImportTable Index string_view string_view Index Type Limits
  | OnImportMemory Index string_view string_view Index Limits
  | OnImportGlobal Index string_view string_view Index Type bool
  | OnImportEvent Index string_view string_view Index Index

datatype decl_call =
    OnTable Index Type Limits
  | OnMemory Index Limits
  | BeginGlobal Index Type bool
  | OnExport Index ExternalKind Index string_view
  | BeginFunctionBody Index Offset
  | OnLocalDecl Index Index Type

datatype expr_call =
    OnBlockExpr Type
  | OnBrExpr Index
  | OnBrIfExpr Index
  | OnBrTableExpr "Index list" Index
  | OnF32ConstExpr "32 word"
  | OnF64ConstExpr "64 word"
  | OnV128ConstExpr v128
  | OnI32ConstExpr "32 word"
  | OnI64ConstExpr "64 word"
  | OnIfExpr Type
  | OnLoopExpr Type
  | OnTryExpr Type
  | OnSimdLaneOpExpr Opcode "64 word"
  | OnSimdShuffleOpExpr Opcode v128

datatype segment_call =
    BeginElemSegment Index Index bool Type
  | OnDataSegmentData Index "8 word list" Address
  | OnModuleNameSubsection Index "32 word" Offset
  | OnModuleName string_view
  | OnFunctionNameSubsection Index "32 word" Offset
  | OnFunctionName Index string_view
  | OnLocalNameSubsection Index "32 word" Offset
  | OnLocalName Index Index string_view

datatype init_expr_call =
    OnInitExprF32ConstExpr Index "32 word"
  | OnInitExprF64ConstExpr Index "64 word"
  | OnInitExprV128ConstExpr Index v128
  | OnInitExprI32ConstExpr Index "32 word"
  | OnInitExprI64ConstExpr Index "64 word"

datatype linking_call =
    OnDylinkInfo "32 word" "32 word" "32 word" "32 word"
  | OnDylinkNeeded string_view
  | OnRelocCount Index Index
  | OnReloc RelocType Offset Index "32 word"
  | OnSymbol Index SymbolType "32 word"
  | OnDataSymbol Index "32 word" string_view Index "32 word" "32 word"
  | OnFunctionSymbol Index "32 word" string_view Index
  | OnGlobalSymbol Index "32 word" string_view Index
  | OnSectionSymbol Index "32 word" Index
  | OnEventSymbol Index "32 word" string_view Index
  | OnSegmentInfo Index string_view "32 word" "32 word"
  | OnInitFunction "32 word" Index
  | OnComdatBegin string_view "32 word" Index
  | OnComdatEntry ComdatType Index

datatype routing_call =
    OnOpcode Opcode
  | OnOpcodeBare
  | OnOpcodeIndex Index
  | OnOpcodeIndexIndex Index Index
  | OnOpcodeUint32 "32 word"
  | OnOpcodeUint32Uint32 "32 word" "32 word"
  | OnOpcodeUint64 "64 word"
  | OnOpcodeF32 "32 word"
  | OnOpcodeF64 "64 word"
  | OnOpcodeV128 v128
  | OnOpcodeBlockSig Type
  | OnEndFunc

text \<open>
  One call of the interface: a method and its arguments. A macro-generated
  method is the macro's constructor applied to the method's name.
\<close>

datatype call =
    BeginCall begin_name Offset
  | EndCall end_name
  | IndexCall index_name Index
  | IndexDescCall index_desc_name Index
  | IndexIndexCall index_index_name Index Index
  | IndexIndexBoolCall index_index_bool_name Index Index bool
  | OpcodeCall opcode_name Opcode
  | LoadStoreOpcodeCall load_store_opcode_name Opcode "32 word" Address
  | Define0Call define0_name
  | Core core_call
  | Import import_call
  | Decl decl_call
  | Expr expr_call
  | Segment segment_call
  | InitExpr init_expr_call
  | Linking linking_call
  | Routing routing_call

subsection \<open>State, effects and faults\<close>

text \<open>
  The object's fields are \<^verbatim>\<open>indent_\<close>, the \<^verbatim>\<open>state\<close> pointer inherited from the
  base class, and the two pointers \<^verbatim>\<open>stream_\<close> and \<^verbatim>\<open>reader_\<close>. The header
  declaring \<^verbatim>\<open>indent_\<close> is not among the sources; the assertion
  \<^verbatim>\<open>indent_ >= 0\<close> shows it is a signed integer, modelled as \<^typ>\<open>int\<close> (the
  rendering bounds below keep it far from the limits of a machine \<^verbatim>\<open>int\<close>).
  \<^verbatim>\<open>reader_\<close> is the wrapped delegate's current state; what was written to
  \<^verbatim>\<open>stream_\<close> is read off the list of effects.
\<close>

datatype fault = AssertionFailed | OutOfBoundsRead

datatype effect = StreamWrite string | ReaderCall call

record 'c logging =
  indent :: int
  state :: "State option"
  effects :: "effect list"
  reader :: 'c

type_synonym ('c, 'a) action = "'c logging \<Rightarrow> (fault + 'a) \<times> 'c logging"

type_synonym 'c delegate = "call \<Rightarrow> 'c \<Rightarrow> retval \<times> 'c"

fun written :: "effect list \<Rightarrow> string" where
  "written [] = []"
| "written (StreamWrite s # fx) = s @ written fx"
| "written (ReaderCall c # fx) = written fx"

fun calls :: "effect list \<Rightarrow> call list" where
  "calls [] = []"
| "calls (StreamWrite s # fx) = calls fx"
| "calls (ReaderCall c # fx) = c # calls fx"

definition stream :: "'c logging \<Rightarrow> string" where
  "stream w = written (effects w)"

text \<open>The constructor: \<^verbatim>\<open>indent_(0)\<close>, nothing written or forwarded yet.\<close>

definition BinaryReaderLogging :: "'c \<Rightarrow> 'c logging" where
  "BinaryReaderLogging forward = \<lparr>indent = 0, state = None, effects = [], reader = forward\<rparr>"

text \<open>
  Statements in sequence: \<^term>\<open>seqs acts k\<close> runs the actions of \<^term>\<open>acts\<close> in
  order, then \<^term>\<open>k\<close>, whose value it returns; a fault ends the run at once.
\<close>

fun seqs :: "('c, unit) action list \<Rightarrow> ('c, 'a) action \<Rightarrow> ('c, 'a) action" where
  "seqs [] k w = k w"
| "seqs (a # acts) k w =
     (case a w of (Inr u, w') \<Rightarrow> seqs acts k w' | (Inl f, w') \<Rightarrow> (Inl f, w'))"

definition skip :: "('c, unit) action" where
  "skip w = (Inr (), w)"

definition after :: "(fault + 'b) \<Rightarrow> ('b \<Rightarrow> ('c, 'a) action) \<Rightarrow> ('c, 'a) action" where
  "after r k w = (case r of Inl f \<Rightarrow> (Inl f, w) | Inr x \<Rightarrow> k x w)"

subsection \<open>The stream\<close>

text \<open>
  Modelled from the spec: \<^verbatim>\<open>Stream\<close> (\<^verbatim>\<open>src/stream.h\<close>, not among the sources) is
  "a generic append-only byte sink". \<^verbatim>\<open>WriteData(src, size)\<close> appends the first
  \<^verbatim>\<open>size\<close> bytes of the array \<^verbatim>\<open>src\<close>; asking for more bytes than the array holds
  reads past its end, which is the fault \<^term>\<open>OutOfBoundsRead\<close>.
  \<^verbatim>\<open>Writef(format, ...)\<close> appends the formatted text.
\<close>

definition WriteData :: "string \<Rightarrow> nat \<Rightarrow> ('c, unit) action" where
  "WriteData src n w =
     (if n \<le> length src then (Inr (), w\<lparr>effects := effects w @ [StreamWrite (take n src)]\<rparr>)
      else (Inl OutOfBoundsRead, w))"

definition Writef :: "string \<Rightarrow> ('c, unit) action" where
  "Writef text w = (Inr (), w\<lparr>effects := effects w @ [StreamWrite text]\<rparr>)"

subsection \<open>Indentation\<close>

definition INDENT_SIZE :: int where
  "INDENT_SIZE = 2"

definition Indent :: "('c, unit) action" where
  "Indent w = (Inr (), w\<lparr>indent := indent w + INDENT_SIZE\<rparr>)"

definition Dedent :: "('c, unit) action" where
  "Dedent w =
     (let w' = w\<lparr>indent := indent w - INDENT_SIZE\<rparr>
      in if indent w' \<ge> 0 then (Inr (), w') else (Inl AssertionFailed, w'))"

text \<open>
  \<^verbatim>\<open>s_indent\<close> is a \<^verbatim>\<open>char\<close> array initialised with two literals of 71 spaces:
  142 spaces and the terminating NUL. \<^verbatim>\<open>size_t i = indent_\<close> converts the signed
  value modulo \<open>2^64\<close>.
\<close>

definition s_indent :: string where
  "s_indent = replicate 142 (CHR '' '') @ [CHR 0x00]"

definition s_indent_len :: nat where
  "s_indent_len = length s_indent - 1"

definition size_t :: "int \<Rightarrow> nat" where
  "size_t x = nat (x mod 2 ^ 64)"

function WriteIndent_loop :: "nat \<Rightarrow> ('c, nat) action" where
  "WriteIndent_loop i w =
     (if i > s_indent_len
      then (case WriteData s_indent s_indent_len w of
              (Inr u, w') \<Rightarrow> WriteIndent_loop (i - s_indent_len) w'
            | (Inl f, w') \<Rightarrow> (Inl f, w'))
      else (Inr i, w))"
  by pat_completeness auto
termination
  by (relation "measure (\<lambda>(i, w). i)") (auto simp: s_indent_len_def s_indent_def)

declare WriteIndent_loop.simps [simp del]

definition WriteIndent :: "('c, unit) action" where
  "WriteIndent w =
     (case WriteIndent_loop (size_t (indent w)) w of
        (Inr i, w') \<Rightarrow>
          (if i > 0 then WriteData s_indent (size_t (indent w')) w' else (Inr (), w'))
      | (Inl f, w') \<Rightarrow> (Inl f, w'))"

definition LOGF_NOINDENT :: "string \<Rightarrow> ('c, unit) action" where
  "LOGF_NOINDENT text = Writef text"

definition LOGF :: "string \<Rightarrow> ('c, unit) action" where
  "LOGF text = seqs [WriteIndent] (LOGF_NOINDENT text)"

subsection \<open>Formatting helpers of the class\<close>

text \<open>
  \<^verbatim>\<open>SPrintLimits\<close> prints into a buffer of \<^verbatim>\<open>size\<close> bytes and asserts that the
  text, with its NUL, fitted.
\<close>

definition SPrintLimits :: "nat \<Rightarrow> Limits \<Rightarrow> fault + string" where
  "SPrintLimits sz limits =
     (let text =
        (if has_max limits
         then ''initial: '' @ fmt_u (initial limits) @ '', max: '' @ fmt_u (max' limits)
         else ''initial: '' @ fmt_u (initial limits))
      in if length text < sz then Inr text else Inl AssertionFailed)"

definition LogType :: "externals \<Rightarrow> Type \<Rightarrow> ('c, unit) action" where
  "LogType X type =
     (if IsTypeIndex X type then LOGF_NOINDENT (''funcidx['' @ fmt_d type @ '']'')
      else LOGF_NOINDENT (GetTypeName X type))"

fun LogTypes_loop :: "externals \<Rightarrow> Type list \<Rightarrow> ('c, unit) action" where
  "LogTypes_loop X [] = skip"
| "LogTypes_loop X (t # ts) =
     seqs ([LogType X t] @ (if ts \<noteq> [] then [LOGF_NOINDENT '', ''] else []))
       (LogTypes_loop X ts)"

definition LogTypes :: "externals \<Rightarrow> Type list \<Rightarrow> ('c, unit) action" where
  "LogTypes X types =
     seqs [LOGF_NOINDENT ''['', LogTypes_loop X types] (LOGF_NOINDENT '']'')"

text \<open>The loop of \<^verbatim>\<open>OnBrTableExpr\<close> over the target depths.\<close>

fun target_depths_loop :: "Index list \<Rightarrow> ('c, unit) action" where
  "target_depths_loop [] = skip"
| "target_depths_loop (t # ts) =
     seqs ([LOGF_NOINDENT (fmt_u t)] @ (if ts \<noteq> [] then [LOGF_NOINDENT '', ''] else []))
       (target_depths_loop ts)"

subsection \<open>Forwarding\<close>

text \<open>
  \<^verbatim>\<open>reader_->name(args)\<close>: the wrapped delegate takes one step on its own state,
  the call is recorded, and its result is the value of the action.
  \<^verbatim>\<open>BinaryReaderDelegate::OnSetState\<close> is the base class's method (its body is in
  the header): it stores the pointer in \<^verbatim>\<open>state\<close>.
\<close>

definition reader_call :: "'c delegate \<Rightarrow> call \<Rightarrow> ('c, retval) action" where
  "reader_call rd c w =
     (Inr (fst (rd c (reader w))),
      w\<lparr>effects := effects w @ [ReaderCall c], reader := snd (rd c (reader w))\<rparr>)"

definition BinaryReaderDelegate_OnSetState :: "State \<Rightarrow> ('c, unit) action" where
  "BinaryReaderDelegate_OnSetState s w = (Inr (), w\<lparr>state := Some s\<rparr>)"

subsection \<open>The macro-generated methods\<close>

definition DEFINE_BEGIN :: "'c delegate \<Rightarrow> begin_name \<Rightarrow> Offset \<Rightarrow> ('c, retval) action" where
  "DEFINE_BEGIN rd name sz =
     seqs [LOGF (begin_name_str name @ ''('' @ fmt_d sz @ '')\<newline>''), Indent]
       (reader_call rd (BeginCall name sz))"

definition DEFINE_END :: "'c delegate \<Rightarrow> end_name \<Rightarrow> ('c, retval) action" where
  "DEFINE_END rd name =
     seqs [Dedent, LOGF (end_name_str name @ ''\<newline>'')]
       (reader_call rd (EndCall name))"

definition DEFINE_INDEX :: "'c delegate \<Rightarrow> index_name \<Rightarrow> Index \<Rightarrow> ('c, retval) action" where
  "DEFINE_INDEX rd name value =
     seqs [LOGF (index_name_str name @ ''('' @ fmt_u value @ '')\<newline>'')]
       (reader_call rd (IndexCall name value))"

definition DEFINE_INDEX_DESC ::
  "'c delegate \<Rightarrow> index_desc_name \<Rightarrow> Index \<Rightarrow> ('c, retval) action" where
  "DEFINE_INDEX_DESC rd name value =
     seqs [LOGF (index_desc_name_str name @ ''('' @ index_desc_name_desc name @ '': ''
                 @ fmt_u value @ '')\<newline>'')]
       (reader_call rd (IndexDescCall name value))"

definition DEFINE_INDEX_INDEX ::
  "'c delegate \<Rightarrow> index_index_name \<Rightarrow> Index \<Rightarrow> Index \<Rightarrow> ('c, retval) action" where
  "DEFINE_INDEX_INDEX rd name value0 value1 =
     seqs [LOGF (index_index_name_str name @ ''('' @ index_index_name_desc0 name @ '': ''
                 @ fmt_u value0 @ '', '' @ index_index_name_desc1 name @ '': ''
                 @ fmt_u value1 @ '')\<newline>'')]
       (reader_call rd (IndexIndexCall name value0 value1))"

definition DEFINE_INDEX_INDEX_BOOL ::
  "'c delegate \<Rightarrow> index_index_bool_name \<Rightarrow> Index \<Rightarrow> Index \<Rightarrow> bool \<Rightarrow> ('c, retval) action" where
  "DEFINE_INDEX_INDEX_BOOL rd name value0 value1 value2 =
     seqs [LOGF (index_index_bool_name_str name @ ''(''
                 @ index_index_bool_name_desc0 name @ '': '' @ fmt_u value0 @ '', ''
                 @ index_index_bool_name_desc1 name @ '': '' @ fmt_u value1 @ '', ''
                 @ index_index_bool_name_desc2 name @ '': '' @ fmt_bool value2
                 @ '')\<newline>'')]
       (reader_call rd (IndexIndexBoolCall name value0 value1 value2))"

definition DEFINE_OPCODE ::
  "externals \<Rightarrow> 'c delegate \<Rightarrow> opcode_name \<Rightarrow> Opcode \<Rightarrow> ('c, retval) action" where
  "DEFINE_OPCODE X rd name opcode =
     seqs [LOGF (opcode_name_str name @ ''(\"'' @ Opcode_GetName X opcode @ ''\" (''
                 @ fmt_u (Opcode_GetCode X opcode) @ ''))\<newline>'')]
       (reader_call rd (OpcodeCall name opcode))"

definition DEFINE_LOAD_STORE_OPCODE ::
  "externals \<Rightarrow> 'c delegate \<Rightarrow> load_store_opcode_name \<Rightarrow> Opcode \<Rightarrow> 32 word \<Rightarrow> Address
     \<Rightarrow> ('c, retval) action" where
  "DEFINE_LOAD_STORE_OPCODE X rd name opcode alignment_log2 offset =
     seqs [LOGF (load_store_opcode_name_str name @ ''(opcode: \"''
                 @ Opcode_GetName X opcode @ ''\" ('' @ fmt_u (Opcode_GetCode X opcode)
                 @ ''), align log2: '' @ fmt_u alignment_log2 @ '', offset: ''
                 @ fmt_u offset @ '')\<newline>'')]
       (reader_call rd (LoadStoreOpcodeCall name opcode alignment_log2 offset))"

definition DEFINE0 :: "'c delegate \<Rightarrow> define0_name \<Rightarrow> ('c, retval) action" where
  "DEFINE0 rd name =
     seqs [LOGF (define0_name_str name @ ''\<newline>'')]
       (reader_call rd (Define0Call name))"

subsection \<open>The methods written out by hand\<close>

primrec core_method :: "externals \<Rightarrow> 'c delegate \<Rightarrow> core_call \<Rightarrow> ('c, retval) action" where
  "core_method X rd (OnError error) = reader_call rd (Core (OnError error))"
| "core_method X rd (OnSetState s) =
     seqs [BinaryReaderDelegate_OnSetState s] (reader_call rd (Core (OnSetState s)))"
| "core_method X rd (BeginModule version) =
     seqs [LOGF (''BeginModule(version: '' @ fmt_u version @ '')\<newline>''), Indent]
       (reader_call rd (Core (BeginModule version)))"
| "core_method X rd (BeginSection section_index section_type sz) =
     reader_call rd (Core (BeginSection section_index section_type sz))"
| "core_method X rd (BeginCustomSection sz section_name) =
     seqs [LOGF (''BeginCustomSection('' @ [CHR 0x27] @ fmt_sv section_name @ [CHR 0x27]
                 @ '', size: '' @ fmt_d sz @ '')\<newline>''), Indent]
       (reader_call rd (Core (BeginCustomSection sz section_name)))"
| "core_method X rd (OnType index param_types result_types) =
     seqs [LOGF (''OnType(index: '' @ fmt_u index @ '', params: ''),
           LogTypes X param_types,
           LOGF_NOINDENT '', results: '',
           LogTypes X result_types,
           LOGF_NOINDENT '')\<newline>'']
       (reader_call rd (Core (OnType index param_types result_types)))"

primrec import_method ::
  "externals \<Rightarrow> 'c delegate \<Rightarrow> import_call \<Rightarrow> ('c, retval) action" where
  "import_method X rd (OnImport index module_name field_name) =
     seqs [LOGF (''OnImport(index: '' @ fmt_u index @ '', module: \"'' @ fmt_sv module_name
                 @ ''\", field: \"'' @ fmt_sv field_name @ ''\")\<newline>'')]
       (reader_call rd (Import (OnImport index module_name field_name)))"
| "import_method X rd (OnImportFunc import_index module_name field_name func_index sig_index) =
     seqs [LOGF (''OnImportFunc(import_index: '' @ fmt_u import_index @ '', func_index: ''
                 @ fmt_u func_index @ '', sig_index: '' @ fmt_u sig_index @ '')\<newline>'')]
       (reader_call rd
          (Import (OnImportFunc import_index module_name field_name func_index sig_index)))"
| "import_method X rd
     (OnImportTable import_index module_name field_name table_index elem_type elem_limits) =
     after (SPrintLimits 100 elem_limits) (\<lambda>buf.
       seqs [LOGF (''OnImportTable(import_index: '' @ fmt_u import_index
                   @ '', table_index: '' @ fmt_u table_index @ '', elem_type: ''
                   @ GetTypeName X elem_type @ '', '' @ buf @ '')\<newline>'')]
         (reader_call rd
            (Import (OnImportTable import_index module_name field_name table_index
                       elem_type elem_limits))))"
| "import_method X rd
     (OnImportMemory import_index module_name field_name memory_index page_limits) =
     after (SPrintLimits 100 page_limits) (\<lambda>buf.
       seqs [LOGF (''OnImportMemory(import_index: '' @ fmt_u import_index
                   @ '', memory_index: '' @ fmt_u memory_index @ '', '' @ buf
                   @ '')\<newline>'')]
         (reader_call rd
            (Import (OnImportMemory import_index module_name field_name memory_index
                       page_limits))))"
| "import_method X rd
     (OnImportGlobal import_index module_name field_name global_index type mutable) =
     seqs [LOGF (''OnImportGlobal(import_index: '' @ fmt_u import_index
                 @ '', global_index: '' @ fmt_u global_index @ '', type: ''
                 @ GetTypeName X type @ '', mutable: '' @ fmt_bool mutable @ '')\<newline>'')]
       (reader_call rd
          (Import (OnImportGlobal import_index module_name field_name global_index
                     type mutable)))"
| "import_method X rd
     (OnImportEvent import_index module_name field_name event_index sig_index) =
     seqs [LOGF (''OnImportEvent(import_index: '' @ fmt_u import_index @ '', event_index: ''
                 @ fmt_u event_index @ '', sig_index: '' @ fmt_u sig_index @ '')\<newline>'')]
       (reader_call rd
          (Import (OnImportEvent import_index module_name field_name event_index sig_index)))"

primrec decl_method :: "externals \<Rightarrow> 'c delegate \<Rightarrow> decl_call \<Rightarrow> ('c, retval) action" where
  "decl_method X rd (OnTable index elem_type elem_limits) =
     after (SPrintLimits 100 elem_limits) (\<lambda>buf.
       seqs [LOGF (''OnTable(index: '' @ fmt_u index @ '', elem_type: ''
                   @ GetTypeName X elem_type @ '', '' @ buf @ '')\<newline>'')]
         (reader_call rd (Decl (OnTable index elem_type elem_limits))))"
| "decl_method X rd (OnMemory index page_limits) =
     after (SPrintLimits 100 page_limits) (\<lambda>buf.
       seqs [LOGF (''OnMemory(index: '' @ fmt_u index @ '', '' @ buf @ '')\<newline>'')]
         (reader_call rd (Decl (OnMemory index page_limits))))"
| "decl_method X rd (BeginGlobal index type mutable) =
     seqs [LOGF (''BeginGlobal(index: '' @ fmt_u index @ '', type: '' @ GetTypeName X type
                 @ '', mutable: '' @ fmt_bool mutable @ '')\<newline>'')]
       (reader_call rd (Decl (BeginGlobal index type mutable)))"
| "decl_method X rd (OnExport index kind item_index name) =
     seqs [LOGF (''OnExport(index: '' @ fmt_u index @ '', kind: '' @ GetKindName X kind
                 @ '', item_index: '' @ fmt_u item_index @ '', name: \"'' @ fmt_sv name
                 @ ''\")\<newline>'')]
       (reader_call rd (Decl (OnExport index kind item_index name)))"
| "decl_method X rd (BeginFunctionBody value sz) =
     seqs [LOGF (''BeginFunctionBody('' @ fmt_u value @ '', size:'' @ fmt_d sz
                 @ '')\<newline>'')]
       (reader_call rd (Decl (BeginFunctionBody value sz)))"
| "decl_method X rd (OnLocalDecl decl_index count type) =
     seqs [LOGF (''OnLocalDecl(index: '' @ fmt_u decl_index @ '', count: '' @ fmt_u count
                 @ '', type: '' @ GetTypeName X type @ '')\<newline>'')]
       (reader_call rd (Decl (OnLocalDecl decl_index count type)))"

primrec expr_method :: "externals \<Rightarrow> 'c delegate \<Rightarrow> expr_call \<Rightarrow> ('c, retval) action" where
  "expr_method X rd (OnBlockExpr sig_type) =
     seqs [LOGF ''OnBlockExpr(sig: '', LogType X sig_type, LOGF_NOINDENT '')\<newline>'']
       (reader_call rd (Expr (OnBlockExpr sig_type)))"
| "expr_method X rd (OnBrExpr depth) =
     seqs [LOGF (''OnBrExpr(depth: '' @ fmt_u depth @ '')\<newline>'')]
       (reader_call rd (Expr (OnBrExpr depth)))"
| "expr_method X rd (OnBrIfExpr depth) =
     seqs [LOGF (''OnBrIfExpr(depth: '' @ fmt_u depth @ '')\<newline>'')]
       (reader_call rd (Expr (OnBrIfExpr depth)))"
| "expr_method X rd (OnBrTableExpr target_depths default_target_depth) =
     seqs [LOGF (''OnBrTableExpr(num_targets: ''
                 @ fmt_u (word_of_nat (length target_depths) :: Index) @ '', depths: [''),
           target_depths_loop target_depths,
           LOGF_NOINDENT (''], default: '' @ fmt_u default_target_depth @ '')\<newline>'')]
       (reader_call rd (Expr (OnBrTableExpr target_depths default_target_depth)))"
| "expr_method X rd (OnF32ConstExpr value_bits) =
     seqs [LOGF (''OnF32ConstExpr('' @ printf_g32 X value_bits @ '' (0x04''
                 @ fmt_x value_bits @ ''))\<newline>'')]
       (reader_call rd (Expr (OnF32ConstExpr value_bits)))"
| "expr_method X rd (OnF64ConstExpr value_bits) =
     seqs [LOGF (''OnF64ConstExpr('' @ printf_g64 X value_bits @ '' (0x08''
                 @ fmt_x value_bits @ ''))\<newline>'')]
       (reader_call rd (Expr (OnF64ConstExpr value_bits)))"
| "expr_method X rd (OnV128ConstExpr value_bits) =
     seqs [LOGF (''OnV128ConstExpr(0x'' @ fmt_08x (v value_bits 0) @ '' 0x''
                 @ fmt_08x (v value_bits 1) @ '' 0x'' @ fmt_08x (v value_bits 2) @ '' 0x''
                 @ fmt_08x (v value_bits 3) @ '')\<newline>'')]
       (reader_call rd (Expr (OnV128ConstExpr value_bits)))"
| "expr_method X rd (OnI32ConstExpr value) =
     seqs [LOGF (''OnI32ConstExpr('' @ fmt_u value @ '' (0x'' @ fmt_x value
                 @ ''))\<newline>'')]
       (reader_call rd (Expr (OnI32ConstExpr value)))"
| "expr_method X rd (OnI64ConstExpr value) =
     seqs [LOGF (''OnI64ConstExpr('' @ fmt_u value @ '' (0x'' @ fmt_x value
                 @ ''))\<newline>'')]
       (reader_call rd (Expr (OnI64ConstExpr value)))"
| "expr_method X rd (OnIfExpr sig_type) =
     seqs [LOGF ''OnIfExpr(sig: '', LogType X sig_type, LOGF_NOINDENT '')\<newline>'']
       (reader_call rd (Expr (OnIfExpr sig_type)))"
| "expr_method X rd (OnLoopExpr sig_type) =
     seqs [LOGF ''OnLoopExpr(sig: '', LogType X sig_type, LOGF_NOINDENT '')\<newline>'']
       (reader_call rd (Expr (OnLoopExpr sig_type)))"
| "expr_method X rd (OnTryExpr sig_type) =
     seqs [LOGF ''OnTryExpr(sig: '', LogType X sig_type, LOGF_NOINDENT '')\<newline>'']
       (reader_call rd (Expr (OnTryExpr sig_type)))"
| "expr_method X rd (OnSimdLaneOpExpr opcode value) =
     seqs [LOGF (''OnSimdLaneOpExpr (lane: '' @ fmt_u value @ '')\<newline>'')]
       (reader_call rd (Expr (OnSimdLaneOpExpr opcode value)))"
| "expr_method X rd (OnSimdShuffleOpExpr opcode value) =
     seqs [LOGF (''OnSimdShuffleOpExpr (lane: 0x'' @ fmt_08x (v value 0) @ '' ''
                 @ fmt_08x (v value 1) @ '' '' @ fmt_08x (v value 2) @ '' ''
                 @ fmt_08x (v value 3) @ '')\<newline>'')]
       (reader_call rd (Expr (OnSimdShuffleOpExpr opcode value)))"

primrec segment_method ::
  "externals \<Rightarrow> 'c delegate \<Rightarrow> segment_call \<Rightarrow> ('c, retval) action" where
  "segment_method X rd (BeginElemSegment index table_index passive elem_type) =
     seqs [LOGF (''BeginElemSegment(index: '' @ fmt_u index @ '', table_index: ''
                 @ fmt_u table_index @ '', passive: '' @ fmt_bool passive
                 @ '', elem_type: '' @ GetTypeName X elem_type @ '')\<newline>'')]
       (reader_call rd (Segment (BeginElemSegment index table_index passive elem_type)))"
| "segment_method X rd (OnDataSegmentData index data sz) =
     seqs [LOGF (''OnDataSegmentData(index:'' @ fmt_u index @ '', size:'' @ fmt_u sz
                 @ '')\<newline>'')]
       (reader_call rd (Segment (OnDataSegmentData index data sz)))"
| "segment_method X rd (OnModuleNameSubsection index name_type subsection_size) =
     seqs [LOGF (''OnModuleNameSubsection(index:'' @ fmt_u index @ '', nametype:''
                 @ fmt_u name_type @ '', size:'' @ fmt_d subsection_size @ '')\<newline>'')]
       (reader_call rd (Segment (OnModuleNameSubsection index name_type subsection_size)))"
| "segment_method X rd (OnModuleName name) =
     seqs [LOGF (''OnModuleName(name: \"'' @ fmt_sv name @ ''\")\<newline>'')]
       (reader_call rd (Segment (OnModuleName name)))"
| "segment_method X rd (OnFunctionNameSubsection index name_type subsection_size) =
     seqs [LOGF (''OnFunctionNameSubsection(index:'' @ fmt_u index @ '', nametype:''
                 @ fmt_u name_type @ '', size:'' @ fmt_d subsection_size @ '')\<newline>'')]
       (reader_call rd (Segment (OnFunctionNameSubsection index name_type subsection_size)))"
| "segment_method X rd (OnFunctionName index name) =
     seqs [LOGF (''OnFunctionName(index: '' @ fmt_u index @ '', name: \"'' @ fmt_sv name
                 @ ''\")\<newline>'')]
       (reader_call rd (Segment (OnFunctionName index name)))"
| "segment_method X rd (OnLocalNameSubsection index name_type subsection_size) =
     seqs [LOGF (''OnLocalNameSubsection(index:'' @ fmt_u index @ '', nametype:''
                 @ fmt_u name_type @ '', size:'' @ fmt_d subsection_size @ '')\<newline>'')]
       (reader_call rd (Segment (OnLocalNameSubsection index name_type subsection_size)))"
| "segment_method X rd (OnLocalName func_index local_index name) =
     seqs [LOGF (''OnLocalName(func_index: '' @ fmt_u func_index @ '', local_index: ''
                 @ fmt_u local_index @ '', name: \"'' @ fmt_sv name @ ''\")\<newline>'')]
       (reader_call rd (Segment (OnLocalName func_index local_index name)))"

primrec init_expr_method ::
  "externals \<Rightarrow> 'c delegate \<Rightarrow> init_expr_call \<Rightarrow> ('c, retval) action" where
  "init_expr_method X rd (OnInitExprF32ConstExpr index value_bits) =
     seqs [LOGF (''OnInitExprF32ConstExpr(index: '' @ fmt_u index @ '', value: ''
                 @ printf_g32 X value_bits @ '' (0x04'' @ fmt_x value_bits
                 @ ''))\<newline>'')]
       (reader_call rd (InitExpr (OnInitExprF32ConstExpr index value_bits)))"
| "init_expr_method X rd (OnInitExprF64ConstExpr index value_bits) =
     seqs [LOGF (''OnInitExprF64ConstExpr(index: '' @ fmt_u index @ '' value: ''
                 @ printf_g64 X value_bits @ '' (0x08'' @ fmt_x value_bits
                 @ ''))\<newline>'')]
       (reader_call rd (InitExpr (OnInitExprF64ConstExpr index value_bits)))"
| "init_expr_method X rd (OnInitExprV128ConstExpr index value_bits) =
     seqs [LOGF (''OnInitExprV128ConstExpr(index: '' @ fmt_u index @ '' value: ( 0x''
                 @ fmt_08x (v value_bits 0) @ '' 0x'' @ fmt_08x (v value_bits 1) @ '' 0x''
                 @ fmt_08x (v value_bits 2) @ '' 0x'' @ fmt_08x (v value_bits 3)
                 @ ''))\<newline>'')]
       (reader_call rd (InitExpr (OnInitExprV128ConstExpr index value_bits)))"
| "init_expr_method X rd (OnInitExprI32ConstExpr index value) =
     seqs [LOGF (''OnInitExprI32ConstExpr(index: '' @ fmt_u index @ '', value: ''
                 @ fmt_u value @ '')\<newline>'')]
       (reader_call rd (InitExpr (OnInitExprI32ConstExpr index value)))"
| "init_expr_method X rd (OnInitExprI64ConstExpr index value) =
     seqs [LOGF (''OnInitExprI64ConstExpr(index: '' @ fmt_u index @ '', value: ''
                 @ fmt_u value @ '')\<newline>'')]
       (reader_call rd (InitExpr (OnInitExprI64ConstExpr index value)))"

primrec linking_method ::
  "externals \<Rightarrow> 'c delegate \<Rightarrow> linking_call \<Rightarrow> ('c, retval) action" where
  "linking_method X rd (OnDylinkInfo mem_size mem_align table_size table_align) =
     seqs [LOGF (''OnDylinkInfo(mem_size: '' @ fmt_u mem_size @ '', mem_align: ''
                 @ fmt_u mem_align @ '', table_size: '' @ fmt_u table_size
                 @ '', table_align: '' @ fmt_u table_align @ '')\<newline>'')]
       (reader_call rd (Linking (OnDylinkInfo mem_size mem_align table_size table_align)))"
| "linking_method X rd (OnDylinkNeeded so_name) =
     seqs [LOGF (''OnDylinkNeeded(name: '' @ fmt_sv so_name @ '')\<newline>'')]
       (reader_call rd (Linking (OnDylinkNeeded so_name)))"
| "linking_method X rd (OnRelocCount count section_index) =
     seqs [LOGF (''OnRelocCount(count: '' @ fmt_u count @ '', section: ''
                 @ fmt_u section_index @ '')\<newline>'')]
       (reader_call rd (Linking (OnRelocCount count section_index)))"
| "linking_method X rd (OnReloc type offset index addend) =
     seqs [LOGF (''OnReloc(type: '' @ GetRelocTypeName X type @ '', offset: ''
                 @ fmt_d offset @ '', index: '' @ fmt_u index @ '', addend: ''
                 @ fmt_d addend @ '')\<newline>'')]
       (reader_call rd (Linking (OnReloc type offset index addend)))"
| "linking_method X rd (OnSymbol symbol_index type flags) =
     seqs [LOGF (''OnSymbol(type: '' @ GetSymbolTypeName X type @ '' flags: 0x''
                 @ fmt_x flags @ '')\<newline>'')]
       (reader_call rd (Linking (OnSymbol symbol_index type flags)))"
| "linking_method X rd (OnDataSymbol index flags name segment offset sz) =
     seqs [LOGF (''OnDataSymbol(name: '' @ fmt_sv name @ '' flags: 0x'' @ fmt_x flags
                 @ '')\<newline>'')]
       (reader_call rd (Linking (OnDataSymbol index flags name segment offset sz)))"
| "linking_method X rd (OnFunctionSymbol index flags name func_index) =
     seqs [LOGF (''OnFunctionSymbol(name: '' @ fmt_sv name @ '' flags: 0x'' @ fmt_x flags
                 @ '' index: '' @ fmt_u func_index @ '')\<newline>'')]
       (reader_call rd (Linking (OnFunctionSymbol index flags name func_index)))"
| "linking_method X rd (OnGlobalSymbol index flags name global_index) =
     seqs [LOGF (''OnGlobalSymbol(name: '' @ fmt_sv name @ '' flags: 0x'' @ fmt_x flags
                 @ '' index: '' @ fmt_u global_index @ '')\<newline>'')]
       (reader_call rd (Linking (OnGlobalSymbol index flags name global_index)))"
| "linking_method X rd (OnSectionSymbol index flags section_index) =
     seqs [LOGF (''OnSectionSymbol(flags: 0x'' @ fmt_x flags @ '' index: ''
                 @ fmt_u section_index @ '')\<newline>'')]
       (reader_call rd (Linking (OnSectionSymbol index flags section_index)))"
| "linking_method X rd (OnEventSymbol index flags name event_index) =
     seqs [LOGF (''OnEventSymbol(name: '' @ fmt_sv name @ '' flags: 0x'' @ fmt_x flags
                 @ '' index: '' @ fmt_u event_index @ '')\<newline>'')]
       (reader_call rd (Linking (OnEventSymbol index flags name event_index)))"
| "linking_method X rd (OnSegmentInfo index name alignment flags) =
     seqs [LOGF (''OnSegmentInfo('' @ fmt_d index @ '' name: '' @ fmt_sv name
                 @ '', alignment: '' @ fmt_d alignment @ '', flags: 0x'' @ fmt_x flags
                 @ '')\<newline>'')]
       (reader_call rd (Linking (OnSegmentInfo index name alignment flags)))"
| "linking_method X rd (OnInitFunction priority func_index) =
     seqs [LOGF (''OnInitFunction('' @ fmt_d func_index @ '' priority: ''
                 @ fmt_d priority @ '')\<newline>'')]
       (reader_call rd (Linking (OnInitFunction priority func_index)))"
| "linking_method X rd (OnComdatBegin name flags count) =
     seqs [LOGF (''OnComdatBegin('' @ fmt_sv name @ '', flags: '' @ fmt_d flags
                 @ '', count: '' @ fmt_u count @ '')\<newline>'')]
       (reader_call rd (Linking (OnComdatBegin name flags count)))"
| "linking_method X rd (OnComdatEntry kind index) =
     seqs [LOGF (''OnComdatEntry(kind: '' @ fmt_d kind @ '', index: '' @ fmt_u index
                 @ '')\<newline>'')]
       (reader_call rd (Linking (OnComdatEntry kind index)))"

text \<open>
  The source's comment on the last group: "We don't need to log these (the
  individual opcodes are logged instead), but we still need to forward the
  calls."
\<close>

primrec routing_method :: "'c delegate \<Rightarrow> routing_call \<Rightarrow> ('c, retval) action" where
  "routing_method rd (OnOpcode opcode) = reader_call rd (Routing (OnOpcode opcode))"
| "routing_method rd OnOpcodeBare = reader_call rd (Routing OnOpcodeBare)"
| "routing_method rd (OnOpcodeIndex value) = reader_call rd (Routing (OnOpcodeIndex value))"
| "routing_method rd (OnOpcodeIndexIndex value value2) =
     reader_call rd (Routing (OnOpcodeIndexIndex value value2))"
| "routing_method rd (OnOpcodeUint32 value) = reader_call rd (Routing (OnOpcodeUint32 value))"
| "routing_method rd (OnOpcodeUint32Uint32 value value2) =
     reader_call rd (Routing (OnOpcodeUint32Uint32 value value2))"
| "routing_method rd (OnOpcodeUint64 value) = reader_call rd (Routing (OnOpcodeUint64 value))"
| "routing_method rd (OnOpcodeF32 value) = reader_call rd (Routing (OnOpcodeF32 value))"
| "routing_method rd (OnOpcodeF64 value) = reader_call rd (Routing (OnOpcodeF64 value))"
| "routing_method rd (OnOpcodeV128 value) = reader_call rd (Routing (OnOpcodeV128 value))"
| "routing_method rd (OnOpcodeBlockSig sig_type) =
     reader_call rd (Routing (OnOpcodeBlockSig sig_type))"
| "routing_method rd OnEndFunc = reader_call rd (Routing OnEndFunc)"

subsection \<open>The decorator as one function of the call\<close>

text \<open>
  \<^term>\<open>invoke X rd c\<close> is the method of \<^verbatim>\<open>BinaryReaderLogging\<close> that the call
  \<^term>\<open>c\<close> names, applied to the call's arguments; \<^term>\<open>rd\<close> is the wrapped
  delegate.
\<close>

primrec invoke :: "externals \<Rightarrow> 'c delegate \<Rightarrow> call \<Rightarrow> ('c, retval) action" where
  "invoke X rd (BeginCall name sz) = DEFINE_BEGIN rd name sz"
| "invoke X rd (EndCall name) = DEFINE_END rd name"
| "invoke X rd (IndexCall name value) = DEFINE_INDEX rd name value"
| "invoke X rd (IndexDescCall name value) = DEFINE_INDEX_DESC rd name value"
| "invoke X rd (IndexIndexCall name value0 value1) = DEFINE_INDEX_INDEX rd name value0 value1"
| "invoke X rd (IndexIndexBoolCall name value0 value1 value2) =
     DEFINE_INDEX_INDEX_BOOL rd name value0 value1 value2"
| "invoke X rd (OpcodeCall name opcode) = DEFINE_OPCODE X rd name opcode"
| "invoke X rd (LoadStoreOpcodeCall name opcode alignment_log2 offset) =
     DEFINE_LOAD_STORE_OPCODE X rd name opcode alignment_log2 offset"
| "invoke X rd (Define0Call name) = DEFINE0 rd name"
| "invoke X rd (Core c) = core_method X rd c"
| "invoke X rd (Import c) = import_method X rd c"
| "invoke X rd (Decl c) = decl_method X rd c"
| "invoke X rd (Expr c) = expr_method X rd c"
| "invoke X rd (Segment c) = segment_method X rd c"
| "invoke X rd (InitExpr c) = init_expr_method X rd c"
| "invoke X rd (Linking c) = linking_method X rd c"
| "invoke X rd (Routing c) = routing_method rd c"

text \<open>
  A driver that delivers a list of calls in order, whatever the delegate
  returns, and stops at a fault.
\<close>

fun run :: "externals \<Rightarrow> 'c delegate \<Rightarrow> call list \<Rightarrow> ('c, retval list) action" where
  "run X rd [] w = (Inr [], w)"
| "run X rd (c # cs) w =
     (case invoke X rd c w of
        (Inl f, w') \<Rightarrow> (Inl f, w')
      | (Inr r, w') \<Rightarrow>
          (case run X rd cs w' of
             (Inl f, w'') \<Rightarrow> (Inl f, w'')
           | (Inr rs, w'') \<Rightarrow> (Inr (r # rs), w'')))"

section \<open>Notions used in the statements\<close>

text \<open>
  Everything below is about the model above: classifications of the calls,
  readers of the trace text, sample inputs. None of it changes what the methods do.
\<close>

subsection \<open>The newline character\<close>

abbreviation nl :: char where
  "nl \<equiv> CHR 0x0A"

subsection \<open>What padding and the two loops write\<close>

text \<open>The padding written in front of a line at a depth inside the buffer.\<close>

definition pad :: "int \<Rightarrow> effect list" where
  "pad d = (if d = 0 then [] else [StreamWrite (replicate (nat d) (CHR '' ''))])"

text \<open>What the two loops write: the elements' texts with \<open>", "\<close> between them.\<close>

definition type_text :: "externals \<Rightarrow> Type \<Rightarrow> string" where
  "type_text X t = (if IsTypeIndex X t then ''funcidx['' @ fmt_d t @ '']'' else GetTypeName X t)"

fun separated :: "string list \<Rightarrow> string list" where
  "separated [] = []"
| "separated (x # xs) = x # (if xs \<noteq> [] then ['', ''] else []) @ separated xs"

subsection \<open>Which calls are logged, and at which depths a line fits the buffer\<close>

text \<open>
  The methods with no \<^verbatim>\<open>LOGF\<close> in their body: the \<^verbatim>\<open>OnOpcode\<close> family with
  \<^verbatim>\<open>OnEndFunc\<close>, and \<^verbatim>\<open>OnError\<close>, \<^verbatim>\<open>OnSetState\<close> and \<^verbatim>\<open>BeginSection\<close>.
\<close>

primrec core_unlogged :: "core_call \<Rightarrow> bool" where
  "core_unlogged (OnError error) = True"
| "core_unlogged (OnSetState s) = True"
| "core_unlogged (BeginModule version) = False"
| "core_unlogged (BeginSection section_index section_type sz) = True"
| "core_unlogged (BeginCustomSection sz section_name) = False"
| "core_unlogged (OnType index param_types result_types) = False"

primrec unlogged :: "call \<Rightarrow> bool" where
  "unlogged (BeginCall name sz) = False"
| "unlogged (EndCall name) = False"
| "unlogged (IndexCall name value) = False"
| "unlogged (IndexDescCall name value) = False"
| "unlogged (IndexIndexCall name value0 value1) = False"
| "unlogged (IndexIndexBoolCall name value0 value1 value2) = False"
| "unlogged (OpcodeCall name opcode) = False"
| "unlogged (LoadStoreOpcodeCall name opcode alignment_log2 offset) = False"
| "unlogged (Define0Call name) = False"
| "unlogged (Core c) = core_unlogged c"
| "unlogged (Import c) = False"
| "unlogged (Decl c) = False"
| "unlogged (Expr c) = False"
| "unlogged (Segment c) = False"
| "unlogged (InitExpr c) = False"
| "unlogged (Linking c) = False"
| "unlogged (Routing c) = True"

primrec is_DEFINE_END :: "call \<Rightarrow> bool" where
  "is_DEFINE_END (BeginCall name sz) = False"
| "is_DEFINE_END (EndCall name) = True"
| "is_DEFINE_END (IndexCall name value) = False"
| "is_DEFINE_END (IndexDescCall name value) = False"
| "is_DEFINE_END (IndexIndexCall name value0 value1) = False"
| "is_DEFINE_END (IndexIndexBoolCall name value0 value1 value2) = False"
| "is_DEFINE_END (OpcodeCall name opcode) = False"
| "is_DEFINE_END (LoadStoreOpcodeCall name opcode alignment_log2 offset) = False"
| "is_DEFINE_END (Define0Call name) = False"
| "is_DEFINE_END (Core c) = False"
| "is_DEFINE_END (Import c) = False"
| "is_DEFINE_END (Decl c) = False"
| "is_DEFINE_END (Expr c) = False"
| "is_DEFINE_END (Segment c) = False"
| "is_DEFINE_END (InitExpr c) = False"
| "is_DEFINE_END (Linking c) = False"
| "is_DEFINE_END (Routing c) = False"

text \<open>
  \<^term>\<open>fits c d\<close>: at depth \<^term>\<open>d\<close> the call \<^term>\<open>c\<close> passes its assertion and its
  line's padding lies inside \<^verbatim>\<open>s_indent\<close>. A \<^verbatim>\<open>DEFINE_END\<close> method dedents before
  it writes, so its range is shifted by one step; an unlogged call fits at any
  depth.
\<close>

definition fits :: "call \<Rightarrow> int \<Rightarrow> bool" where
  "fits c d =
     (if unlogged c then True
      else if is_DEFINE_END c then INDENT_SIZE \<le> d \<and> d - INDENT_SIZE \<le> int s_indent_len
      else 0 \<le> d \<and> d \<le> int s_indent_len)"

subsection \<open>Rendering is a function of the depth alone\<close>

text \<open>
  An action is \<^emph>\<open>uniform\<close> when its outcome, the new depth, the new \<^verbatim>\<open>state\<close>
  pointer and the texts it writes are determined by the depth it starts at:
  it neither reads nor changes the wrapped delegate, and it makes no call.
\<close>

definition uniform :: "('c, 'a) action \<Rightarrow> bool" where
  "uniform a \<longleftrightarrow>
     (\<exists>F. \<forall>w. a w =
        (case F (indent w) of
           (r, d, g, ss) \<Rightarrow>
             (r, w\<lparr>indent := d, state := g (state w),
                   effects := effects w @ map StreamWrite ss\<rparr>)))"

subsection \<open>Sample inputs\<close>

definition sample_externals :: externals where
  "sample_externals =
     \<lparr>IsTypeIndex = (\<lambda>t. 0 \<le> sint t), GetTypeName = (\<lambda>t. ''i32''),
      GetKindName = (\<lambda>k. ''func''), GetRelocTypeName = (\<lambda>t. ''R_WASM_FUNCTION_INDEX_LEB''),
      GetSymbolTypeName = (\<lambda>t. ''func''), Opcode_GetName = (\<lambda>opcode. ''nop''),
      Opcode_GetCode = (\<lambda>opcode. opcode), printf_g32 = (\<lambda>bits. ''0''),
      printf_g64 = (\<lambda>bits. ''0'')\<rparr>"

text \<open>Two delegates that count the calls they receive; one accepts, one refuses.\<close>

definition accepting_delegate :: "nat delegate" where
  "accepting_delegate c n = (ResultVal Ok, Suc n)"

definition refusing_delegate :: "nat delegate" where
  "refusing_delegate c n = (ResultVal Error, Suc n)"

definition sample_module :: "call list" where
  "sample_module =
     [Core (BeginModule 1), BeginCall BeginTypeSection 12, IndexCall OnTypeCount 1,
      Core (OnType 0 [] [0x7F]), EndCall EndTypeSection, EndCall EndModule]"

subsection \<open>Lines\<close>


definition indentation :: "string \<Rightarrow> nat" where
  "indentation t = length (takeWhile (\<lambda>c. c = CHR '' '') t)"

definition newline_free :: "string \<Rightarrow> bool" where
  "newline_free s \<longleftrightarrow> nl \<notin> set s"









subsection \<open>Reading a hexadecimal field back\<close>

text \<open>
  The reader's side of the round trip: the value of a string of hexadecimal
  digits (either case), \<^term>\<open>None\<close> when the string is empty or holds any other
  character.
\<close>

definition hex_digit_value :: "char \<Rightarrow> nat option" where
  "hex_digit_value c =
     (let n = (of_char c :: nat)
      in if 48 \<le> n \<and> n \<le> 57 then Some (n - 48)
         else if 97 \<le> n \<and> n \<le> 102 then Some (n - 87)
         else if 65 \<le> n \<and> n \<le> 70 then Some (n - 55)
         else None)"

fun hex_value_from :: "nat \<Rightarrow> string \<Rightarrow> nat option" where
  "hex_value_from a [] = Some a"
| "hex_value_from a (c # cs) =
     (case hex_digit_value c of None \<Rightarrow> None | Some d \<Rightarrow> hex_value_from (16 * a + d) cs)"

definition hex_value :: "string \<Rightarrow> nat option" where
  "hex_value s = (if s = [] then None else hex_value_from 0 s)"

subsection \<open>Well-nested sequences of calls\<close>

text \<open>
  A method named \<open>BeginR\<close> opens the region \<open>R\<close>, the method named \<open>EndR\<close>
  closes it. \<^verbatim>\<open>BeginSection\<close> has no counterpart \<^verbatim>\<open>EndSection\<close> in the
  interface and opens nothing.
\<close>

datatype bracket = Opens string | Closes string | Neither

definition bracket_of_name :: "string \<Rightarrow> bracket" where
  "bracket_of_name s =
     (if take 5 s = ''Begin'' then Opens (drop 5 s)
      else if take 3 s = ''End'' then Closes (drop 3 s)
      else Neither)"

definition core_bracket :: "core_call \<Rightarrow> bracket" where
  "core_bracket c =
     (case c of BeginModule version \<Rightarrow> Opens ''Module''
      | BeginCustomSection sz section_name \<Rightarrow> Opens ''CustomSection''
      | _ \<Rightarrow> Neither)"

definition decl_bracket :: "decl_call \<Rightarrow> bracket" where
  "decl_bracket c =
     (case c of BeginGlobal index type mutable \<Rightarrow> Opens ''Global''
      | BeginFunctionBody index sz \<Rightarrow> Opens ''FunctionBody''
      | _ \<Rightarrow> Neither)"

definition segment_bracket :: "segment_call \<Rightarrow> bracket" where
  "segment_bracket c =
     (case c of BeginElemSegment index table_index passive elem_type \<Rightarrow> Opens ''ElemSegment''
      | _ \<Rightarrow> Neither)"

primrec bracket_of :: "call \<Rightarrow> bracket" where
  "bracket_of (BeginCall name sz) = bracket_of_name (begin_name_str name)"
| "bracket_of (EndCall name) = bracket_of_name (end_name_str name)"
| "bracket_of (IndexCall name index) = bracket_of_name (index_name_str name)"
| "bracket_of (IndexDescCall name index) = bracket_of_name (index_desc_name_str name)"
| "bracket_of (IndexIndexCall name index0 index1) = bracket_of_name (index_index_name_str name)"
| "bracket_of (IndexIndexBoolCall name index0 index1 flag) =
     bracket_of_name (index_index_bool_name_str name)"
| "bracket_of (OpcodeCall name opcode) = bracket_of_name (opcode_name_str name)"
| "bracket_of (LoadStoreOpcodeCall name opcode alignment_log2 offset) =
     bracket_of_name (load_store_opcode_name_str name)"
| "bracket_of (Define0Call name) = bracket_of_name (define0_name_str name)"
| "bracket_of (Core c) = core_bracket c"
| "bracket_of (Import c) = Neither"
| "bracket_of (Decl c) = decl_bracket c"
| "bracket_of (Expr c) = Neither"
| "bracket_of (Segment c) = segment_bracket c"
| "bracket_of (InitExpr c) = Neither"
| "bracket_of (Linking c) = Neither"
| "bracket_of (Routing c) = Neither"

text \<open>
  \<^term>\<open>well_nested n stack cs\<close>: read from left to right with the regions of
  \<^term>\<open>stack\<close> open (innermost first), every end call of \<^term>\<open>cs\<close> closes the
  innermost open region, which is its own; at the end no region is open; and
  never more than \<^term>\<open>n\<close> regions are open at once.
\<close>

fun well_nested :: "nat \<Rightarrow> string list \<Rightarrow> call list \<Rightarrow> bool" where
  "well_nested n stack [] = (stack = [])"
| "well_nested n stack (c # cs) =
     (case bracket_of c of
        Neither \<Rightarrow> well_nested n stack cs
      | Opens r \<Rightarrow> length stack < n \<and> well_nested n (r # stack) cs
      | Closes r \<Rightarrow>
          (case stack of [] \<Rightarrow> False | r' # rest \<Rightarrow> r' = r \<and> well_nested n rest cs))"

text \<open>The regions whose end call is a \<^verbatim>\<open>DEFINE_END\<close> method: the module and the sections.\<close>

definition section_regions :: "string list" where
  "section_regions =
     map (\<lambda>name. drop 3 (end_name_str name))
       [EndModule, EndCustomSection, EndTypeSection, EndImportSection, EndFunctionSection,
        EndTableSection, EndMemorySection, EndGlobalSection, EndExportSection,
        EndStartSection, EndCodeSection, EndElemSection, EndDataSection,
        EndDataCountSection, EndNamesSection, EndRelocSection, EndDylinkSection,
        EndLinkingSection, EndEventSection]"

definition depth_step :: "bracket \<Rightarrow> int" where
  "depth_step b =
     (case b of
        Opens r \<Rightarrow> (if r \<in> set section_regions then INDENT_SIZE else 0)
      | Closes r \<Rightarrow> (if r \<in> set section_regions then - INDENT_SIZE else 0)
      | Neither \<Rightarrow> 0)"

subsection \<open>The depth changes only in \<^verbatim>\<open>Indent\<close> and \<^verbatim>\<open>Dedent\<close>\<close>

text \<open>
  \<^term>\<open>shifts a k\<close>: whenever the action \<^term>\<open>a\<close> returns, the depth has changed
  by \<^term>\<open>k\<close>, at whatever depth it started.
\<close>

definition shifts :: "('c, 'a) action \<Rightarrow> int \<Rightarrow> bool" where
  "shifts a k \<longleftrightarrow> (\<forall>w r w'. a w = (Inr r, w') \<longrightarrow> indent w' = indent w + k)"

section \<open>Lemmas\<close>

subsection \<open>Facts about the conversions\<close>

lemma digit_less_16: "n < 16 \<Longrightarrow> digit n \<in> set ''0123456789abcdef''"
  unfolding digit_def by (rule nth_mem) simp

lemma dec_digits: "set (dec n) \<subseteq> set ''0123456789abcdef''"
proof (induction n rule: dec.induct)
  case (1 n)
  show ?case
  proof (cases "n < 10")
    case True
    then show ?thesis using digit_less_16 [of n] by (subst dec.simps) simp
  next
    case False
    have "n mod 10 < 16" using mod_less_divisor [of 10 n] by linarith
    then show ?thesis using False 1 digit_less_16 [of "n mod 10"]
      by (subst dec.simps) simp
  qed
qed

lemma hex_digits: "set (hex n) \<subseteq> set ''0123456789abcdef''"
proof (induction n rule: hex.induct)
  case (1 n)
  show ?case
  proof (cases "n < 16")
    case True
    then show ?thesis using digit_less_16 [of n] by (subst hex.simps) simp
  next
    case False
    have "n mod 16 < 16" by simp
    then show ?thesis using False 1 digit_less_16 [of "n mod 16"]
      by (subst hex.simps) simp
  qed
qed

lemma nl_notin_dec [simp]: "nl \<notin> set (dec n)"
  using dec_digits [of n] by auto

lemma nl_notin_hex [simp]: "nl \<notin> set (hex n)"
  using hex_digits [of n] by auto

lemma nl_notin_fmt [simp]:
  "nl \<notin> set (fmt_u w)" "nl \<notin> set (fmt_d w)" "nl \<notin> set (fmt_x w)"
  "nl \<notin> set (fmt_08x w')" "nl \<notin> set (fmt_bool b)"
  by (auto simp: fmt_u_def fmt_d_def fmt_x_def fmt_08x_def fmt_bool_def)

lemma dec_length: "0 < k \<Longrightarrow> n < 10 ^ k \<Longrightarrow> length (dec n) \<le> k"
proof (induction k arbitrary: n)
  case 0
  then show ?case by simp
next
  case (Suc k)
  show ?case
  proof (cases "n < 10")
    case True
    then show ?thesis by (subst dec.simps) simp
  next
    case False
    then have k: "0 < k" using Suc.prems by (cases k) auto
    have "n div 10 < 10 ^ k" using Suc.prems(2) by (simp add: less_mult_imp_div_less mult.commute)
    then have "length (dec (n div 10)) \<le> k" using Suc.IH k by blast
    then show ?thesis using False by (subst dec.simps) simp
  qed
qed

lemma hex_length: "0 < k \<Longrightarrow> n < 16 ^ k \<Longrightarrow> length (hex n) \<le> k"
proof (induction k arbitrary: n)
  case 0
  then show ?case by simp
next
  case (Suc k)
  show ?case
  proof (cases "n < 16")
    case True
    then show ?thesis by (subst hex.simps) simp
  next
    case False
    then have k: "0 < k" using Suc.prems by (cases k) auto
    have "n div 16 < 16 ^ k" using Suc.prems(2) by (simp add: less_mult_imp_div_less mult.commute)
    then have "length (hex (n div 16)) \<le> k" using Suc.IH k by blast
    then show ?thesis using False by (subst hex.simps) simp
  qed
qed

lemma fmt_u_64_length: "length (fmt_u (w :: 64 word)) \<le> 20"
proof -
  have "unat w < 2 ^ 64" using unsigned_less [of w] by simp
  then have "unat w < 10 ^ 20" by simp
  then show ?thesis unfolding fmt_u_def by (intro dec_length) simp_all
qed

lemma fmt_08x_length [simp]: "length (fmt_08x w) = 8"
proof -
  have "unat w < 2 ^ 32" using unsigned_less [of w] by simp
  then have "unat w < 16 ^ 8" by simp
  then have "length (hex (unat w)) \<le> 8" by (intro hex_length) simp_all
  then show ?thesis by (simp add: fmt_08x_def)
qed

subsection \<open>Facts about the primitives\<close>

lemma written_append [simp]: "written (xs @ ys) = written xs @ written ys"
  by (induction xs rule: written.induct) auto

lemma calls_append [simp]: "calls (xs @ ys) = calls xs @ calls ys"
  by (induction xs rule: calls.induct) auto

lemma s_indent_len_eq: "s_indent_len = 142"
  by (simp add: s_indent_len_def s_indent_def)

lemma take_s_indent: "n \<le> 142 \<Longrightarrow> take n s_indent = replicate n (CHR '' '')"
  by (simp add: s_indent_def)

lemma size_t_nonneg: "0 \<le> d \<Longrightarrow> d \<le> 142 \<Longrightarrow> size_t d = nat d"
  by (simp add: size_t_def)

lemma written_pad [simp]: "written (pad d) = replicate (nat d) (CHR '' '')"
  by (simp add: pad_def)

lemma calls_pad [simp]: "calls (pad d) = []"
  by (simp add: pad_def)

lemma WriteIndent_within:
  assumes "0 \<le> indent w" and "indent w \<le> 142"
  shows "WriteIndent w = (Inr (), w\<lparr>effects := effects w @ pad (indent w)\<rparr>)"
proof -
  have "\<not> s_indent_len < nat (indent w)"
    using assms by (simp add: s_indent_len_eq)
  then have loop: "WriteIndent_loop (nat (indent w)) w = (Inr (nat (indent w)), w)"
    by (subst WriteIndent_loop.simps) (simp only: if_False)
  show ?thesis
  proof (cases "indent w = 0")
    case True
    then show ?thesis
      using loop by (simp add: WriteIndent_def size_t_nonneg pad_def)
  next
    case False
    then have "0 < nat (indent w)" "nat (indent w) \<le> 142" using assms by auto
    then show ?thesis
      using loop assms False
      by (simp add: WriteIndent_def size_t_nonneg pad_def WriteData_def take_s_indent s_indent_def)
  qed
qed

lemma LOGF_within:
  "0 \<le> indent w \<Longrightarrow> indent w \<le> 142 \<Longrightarrow>
   LOGF text w = (Inr (), w\<lparr>effects := effects w @ pad (indent w) @ [StreamWrite text]\<rparr>)"
  by (simp add: LOGF_def LOGF_NOINDENT_def Writef_def WriteIndent_within)

lemma LOGF_NOINDENT_eq:
  "LOGF_NOINDENT text w = (Inr (), w\<lparr>effects := effects w @ [StreamWrite text]\<rparr>)"
  by (simp add: LOGF_NOINDENT_def Writef_def)

lemma SPrintLimits_100:
  "SPrintLimits 100 limits =
     Inr (if has_max limits
          then ''initial: '' @ fmt_u (initial limits) @ '', max: '' @ fmt_u (max' limits)
          else ''initial: '' @ fmt_u (initial limits))"
  using fmt_u_64_length [of "initial limits"] fmt_u_64_length [of "max' limits"]
  by (simp add: SPrintLimits_def)

lemma LogType_eq:
  "LogType X t w = (Inr (), w\<lparr>effects := effects w @ [StreamWrite (type_text X t)]\<rparr>)"
  by (simp add: LogType_def type_text_def LOGF_NOINDENT_eq)

lemma LogTypes_loop_eq:
  "LogTypes_loop X ts w =
     (Inr (), w\<lparr>effects := effects w @ map StreamWrite (separated (map (type_text X) ts))\<rparr>)"
  by (induction ts arbitrary: w) (simp_all add: skip_def LogType_eq LOGF_NOINDENT_eq)

lemma LogTypes_eq:
  "LogTypes X ts w =
     (Inr (), w\<lparr>effects := effects w @
        map StreamWrite (''['' # separated (map (type_text X) ts) @ ['']''])\<rparr>)"
  by (simp add: LogTypes_def LogTypes_loop_eq LOGF_NOINDENT_eq)

lemma target_depths_loop_eq:
  "target_depths_loop ts w =
     (Inr (), w\<lparr>effects := effects w @ map StreamWrite (separated (map fmt_u ts))\<rparr>)"
  by (induction ts arbitrary: w) (simp_all add: skip_def LOGF_NOINDENT_eq)

lemma written_map_StreamWrite [simp]: "written (map StreamWrite ss) = concat ss"
  by (induction ss) auto

lemma calls_map_StreamWrite [simp]: "calls (map StreamWrite ss) = []"
  by (induction ss) auto

subsection \<open>Which calls are logged, and at which depths a line fits the buffer\<close>

lemmas exec_simps =
  DEFINE_BEGIN_def DEFINE_END_def DEFINE_INDEX_def DEFINE_INDEX_DESC_def
  DEFINE_INDEX_INDEX_def DEFINE_INDEX_INDEX_BOOL_def DEFINE_OPCODE_def
  DEFINE_LOAD_STORE_OPCODE_def DEFINE0_def
  LOGF_within LOGF_NOINDENT_eq LogType_eq LogTypes_eq target_depths_loop_eq
  SPrintLimits_100 after_def Indent_def Dedent_def INDENT_SIZE_def reader_call_def
  BinaryReaderDelegate_OnSetState_def fits_def s_indent_len_eq

lemma forward_test:
  assumes "fits c (indent w)"
  shows "\<exists>w'. invoke X rd c w = (Inr (fst (rd c (reader w))), w')
           \<and> reader w' = snd (rd c (reader w))
           \<and> calls (effects w') = calls (effects w) @ [c]"
proof (cases c)
  case (Core x) then show ?thesis using assms by (cases x) (simp_all add: exec_simps)
next
  case (Import x) then show ?thesis using assms by (cases x) (simp_all add: exec_simps)
next
  case (Decl x) then show ?thesis using assms by (cases x) (simp_all add: exec_simps)
next
  case (Expr x) then show ?thesis using assms by (cases x) (simp_all add: exec_simps)
next
  case (Segment x) then show ?thesis using assms by (cases x) (simp_all add: exec_simps)
next
  case (InitExpr x) then show ?thesis using assms by (cases x) (simp_all add: exec_simps)
next
  case (Linking x) then show ?thesis using assms by (cases x) (simp_all add: exec_simps)
next
  case (Routing x) then show ?thesis using assms by (cases x) (simp_all add: exec_simps)
qed (use assms in \<open>simp_all add: exec_simps\<close>)

subsection \<open>Rendering is a function of the depth alone\<close>

lemma uniformI:
  "(\<And>w. a w = (case F (indent w) of
             (r, d, g, ss) \<Rightarrow>
               (r, w\<lparr>indent := d, state := g (state w),
                     effects := effects w @ map StreamWrite ss\<rparr>))) \<Longrightarrow> uniform a"
  unfolding uniform_def by blast

lemma uniform_Writef [simp]: "uniform (Writef text)"
  by (rule uniformI [where F = "\<lambda>d. (Inr (), d, \<lambda>s. s, [text])"]) (simp add: Writef_def)

lemma uniform_LOGF_NOINDENT [simp]: "uniform (LOGF_NOINDENT text)"
  by (simp add: LOGF_NOINDENT_def)

lemma uniform_WriteData [simp]: "uniform (WriteData src n)"
  by (rule uniformI [where F = "\<lambda>d. if n \<le> length src then (Inr (), d, \<lambda>s. s, [take n src])
                                     else (Inl OutOfBoundsRead, d, \<lambda>s. s, [])"])
    (simp add: WriteData_def)

lemma uniform_Indent [simp]: "uniform Indent"
  by (rule uniformI [where F = "\<lambda>d. (Inr (), d + INDENT_SIZE, \<lambda>s. s, [])"])
    (simp add: Indent_def)

lemma uniform_Dedent [simp]: "uniform Dedent"
  by (rule uniformI [where F = "\<lambda>d. (if d - INDENT_SIZE \<ge> 0 then Inr () else Inl AssertionFailed,
                                     d - INDENT_SIZE, \<lambda>s. s, [])"])
    (simp add: Dedent_def)

lemma uniform_skip [simp]: "uniform skip"
  by (rule uniformI [where F = "\<lambda>d. (Inr (), d, \<lambda>s. s, [])"]) (simp add: skip_def)

lemma uniform_return: "uniform (\<lambda>w. (Inr x, w))"
  by (rule uniformI [where F = "\<lambda>d. (Inr x, d, \<lambda>s. s, [])"]) simp

lemma uniform_OnSetState [simp]: "uniform (BinaryReaderDelegate_OnSetState s)"
  by (rule uniformI [where F = "\<lambda>d. (Inr (), d, \<lambda>_. Some s, [])"])
    (simp add: BinaryReaderDelegate_OnSetState_def)

text \<open>Sequencing keeps uniformity: the second action starts at the depth the first left.\<close>

lemma uniform_bind:
  assumes "uniform a" and "\<And>x. uniform (k x)"
  shows "uniform (\<lambda>w. case a w of (Inr x, w') \<Rightarrow> k x w' | (Inl f, w') \<Rightarrow> (Inl f, w'))"
proof -
  obtain Fa where Fa: "\<And>w. a w =
      (case Fa (indent w) of
         (r, d, g, ss) \<Rightarrow>
           (r, w\<lparr>indent := d, state := g (state w), effects := effects w @ map StreamWrite ss\<rparr>))"
    using assms(1) unfolding uniform_def by blast
  have "\<forall>x. \<exists>F. \<forall>w. k x w =
      (case F (indent w) of
         (r, d, g, ss) \<Rightarrow>
           (r, w\<lparr>indent := d, state := g (state w), effects := effects w @ map StreamWrite ss\<rparr>))"
    using assms(2) unfolding uniform_def by blast
  then obtain Fk where Fk: "\<And>x w. k x w =
      (case Fk x (indent w) of
         (r, d, g, ss) \<Rightarrow>
           (r, w\<lparr>indent := d, state := g (state w), effects := effects w @ map StreamWrite ss\<rparr>))"
    by metis
  define F where "F = (\<lambda>d0. case Fa d0 of
      (Inl f, d1, g1, ss1) \<Rightarrow> (Inl f, d1, g1, ss1)
    | (Inr x, d1, g1, ss1) \<Rightarrow>
        (case Fk x d1 of (r, d2, g2, ss2) \<Rightarrow> (r, d2, g2 \<circ> g1, ss1 @ ss2)))"
  show ?thesis
  proof (rule uniformI [where F = F])
    fix w
    show "(case a w of (Inr x, w') \<Rightarrow> k x w' | (Inl f, w') \<Rightarrow> (Inl f, w')) =
      (case F (indent w) of
         (r, d, g, ss) \<Rightarrow>
           (r, w\<lparr>indent := d, state := g (state w), effects := effects w @ map StreamWrite ss\<rparr>))"
      by (simp add: Fa Fk F_def split: prod.splits sum.splits)
  qed
qed

lemma seqs_Cons_fun:
  "seqs (a # acts) k = (\<lambda>w. case a w of (Inr u, w') \<Rightarrow> seqs acts k w' | (Inl f, w') \<Rightarrow> (Inl f, w'))"
  by (rule ext) simp

lemma seqs_Nil_fun: "seqs [] k = k"
  by (rule ext) simp

lemma uniform_seqs: "list_all uniform acts \<Longrightarrow> uniform k \<Longrightarrow> uniform (seqs acts k)"
proof (induction acts)
  case Nil
  then show ?case by (simp add: seqs_Nil_fun)
next
  case (Cons a acts)
  then have "uniform a" "uniform (seqs acts k)" by simp_all
  then show ?case unfolding seqs_Cons_fun by (intro uniform_bind)
qed

text \<open>An action chosen by the current depth is uniform when every choice is.\<close>

lemma uniform_at_depth:
  assumes "\<And>d. uniform (g d)"
  shows "uniform (\<lambda>w. g (indent w) w)"
proof -
  have "\<forall>d. \<exists>F. \<forall>w. g d w =
      (case F (indent w) of
         (r, d', h, ss) \<Rightarrow>
           (r, w\<lparr>indent := d', state := h (state w), effects := effects w @ map StreamWrite ss\<rparr>))"
    using assms unfolding uniform_def by blast
  then obtain G where G: "\<And>d w. g d w =
      (case G d (indent w) of
         (r, d', h, ss) \<Rightarrow>
           (r, w\<lparr>indent := d', state := h (state w), effects := effects w @ map StreamWrite ss\<rparr>))"
    by metis
  show ?thesis
    by (rule uniformI [where F = "\<lambda>d. G d d"]) (simp add: G)
qed

lemma uniform_WriteIndent_loop: "uniform (WriteIndent_loop i :: ('c, nat) action)"
proof (induction i rule: less_induct)
  case (less i)
  show ?case
  proof (cases "i > s_indent_len")
    case True
    have eq: "(WriteIndent_loop i :: ('c, nat) action) =
      (\<lambda>w. case WriteData s_indent s_indent_len w of
              (Inr u, w') \<Rightarrow> WriteIndent_loop (i - s_indent_len) w'
            | (Inl f, w') \<Rightarrow> (Inl f, w'))"
      using True by (intro ext, subst WriteIndent_loop.simps) simp
    have "i - s_indent_len < i" using True by (simp add: s_indent_len_eq)
    then have "uniform (WriteIndent_loop (i - s_indent_len) :: ('c, nat) action)"
      by (rule less.IH)
    then show ?thesis unfolding eq by (intro uniform_bind) simp_all
  next
    case False
    then have "(WriteIndent_loop i :: ('c, nat) action) = (\<lambda>w. (Inr i, w))"
      by (intro ext, subst WriteIndent_loop.simps) simp
    then show ?thesis by (simp add: uniform_return)
  qed
qed

lemma uniform_WriteIndent [simp]: "uniform WriteIndent"
proof -
  have tail: "uniform (\<lambda>w. if 0 < i then WriteData s_indent (size_t (indent w)) w else (Inr (), w))"
    for i :: nat
  proof (cases "0 < i")
    case True
    have "uniform (\<lambda>w. WriteData s_indent (size_t (indent w)) w)"
      by (rule uniform_at_depth) simp
    then show ?thesis using True by simp
  next
    case False
    then show ?thesis by (simp add: uniform_return)
  qed
  have "uniform (\<lambda>w. case WriteIndent_loop (size_t d) w of
          (Inr i, w') \<Rightarrow>
            (if 0 < i then WriteData s_indent (size_t (indent w')) w' else (Inr (), w'))
        | (Inl f, w') \<Rightarrow> (Inl f, w'))" for d
    by (intro uniform_bind uniform_WriteIndent_loop tail)
  then have "uniform (\<lambda>w. case WriteIndent_loop (size_t (indent w)) w of
          (Inr i, w') \<Rightarrow>
            (if 0 < i then WriteData s_indent (size_t (indent w')) w' else (Inr (), w'))
        | (Inl f, w') \<Rightarrow> (Inl f, w'))"
    by (rule uniform_at_depth)
  then show ?thesis
    unfolding uniform_def WriteIndent_def .
qed

lemma uniform_LOGF [simp]: "uniform (LOGF text)"
  unfolding LOGF_def by (intro uniform_seqs) simp_all

lemma uniform_LogType [simp]: "uniform (LogType X t)"
  by (simp add: LogType_def)

lemma uniform_LogTypes_loop [simp]: "uniform (LogTypes_loop X ts)"
proof (induction ts)
  case Nil
  show ?case by simp
next
  case (Cons t ts)
  then show ?case
    unfolding LogTypes_loop.simps by (intro uniform_seqs) simp_all
qed

lemma uniform_LogTypes [simp]: "uniform (LogTypes X ts)"
  unfolding LogTypes_def by (intro uniform_seqs) simp_all

lemma uniform_target_depths_loop [simp]: "uniform (target_depths_loop ts)"
proof (induction ts)
  case Nil
  show ?case by simp
next
  case (Cons t ts)
  then show ?case
    unfolding target_depths_loop.simps by (intro uniform_seqs) simp_all
qed

subsection \<open>Every method renders, then forwards its own call\<close>

lemma seqs_join_at:
  "(case seqs acts skip w of (Inr u, w') \<Rightarrow> k w' | (Inl f, w') \<Rightarrow> (Inl f, w')) = seqs acts k w"
proof (induction acts arbitrary: w)
  case Nil
  show ?case by (simp add: skip_def)
next
  case (Cons a acts)
  obtain r w1 where aw: "a w = (r, w1)" by (cases "a w")
  show ?case by (cases r) (simp_all add: aw Cons.IH)
qed

lemma seqs_join: "seqs [seqs acts skip] k = seqs acts k"
  by (rule ext) (simp add: seqs_join_at)

lemma shapeI:
  "list_all uniform acts \<Longrightarrow>
   \<exists>a :: ('c, unit) action. uniform a \<and>
     (\<forall>rd. seqs acts (reader_call rd c) = seqs [a] (reader_call rd c))"
  by (rule exI [where x = "seqs acts skip"]) (simp add: seqs_join uniform_seqs)

lemma shape_silent:
  "\<exists>a :: ('c, unit) action. uniform a \<and> (\<forall>rd. reader_call rd c = seqs [a] (reader_call rd c))"
  using shapeI [of "[]" c] by (simp add: seqs_Nil_fun)

lemma after_Inr: "after (Inr x) k = k x"
  by (rule ext) (simp add: after_def)

lemmas shape_simps =
  invoke.simps core_method.simps import_method.simps decl_method.simps expr_method.simps
  segment_method.simps init_expr_method.simps linking_method.simps routing_method.simps
  DEFINE_BEGIN_def DEFINE_END_def DEFINE_INDEX_def DEFINE_INDEX_DESC_def
  DEFINE_INDEX_INDEX_def DEFINE_INDEX_INDEX_BOOL_def DEFINE_OPCODE_def
  DEFINE_LOAD_STORE_OPCODE_def DEFINE0_def SPrintLimits_100 after_Inr

lemma invoke_shape:
  "\<exists>a :: ('c, unit) action. uniform a \<and>
     (\<forall>rd. invoke X rd c = seqs [a] (reader_call rd c))"
proof (cases c)
  case (Core x)
  then show ?thesis
    by (cases x) (simp_all only: shape_simps, (rule shape_silent | (rule shapeI, simp))+)
next
  case (Import x)
  then show ?thesis
    by (cases x) (simp_all only: shape_simps, (rule shape_silent | (rule shapeI, simp))+)
next
  case (Decl x)
  then show ?thesis
    by (cases x) (simp_all only: shape_simps, (rule shape_silent | (rule shapeI, simp))+)
next
  case (Expr x)
  then show ?thesis
    by (cases x) (simp_all only: shape_simps, (rule shape_silent | (rule shapeI, simp))+)
next
  case (Segment x)
  then show ?thesis
    by (cases x) (simp_all only: shape_simps, (rule shape_silent | (rule shapeI, simp))+)
next
  case (InitExpr x)
  then show ?thesis
    by (cases x) (simp_all only: shape_simps, (rule shape_silent | (rule shapeI, simp))+)
next
  case (Linking x)
  then show ?thesis
    by (cases x) (simp_all only: shape_simps, (rule shape_silent | (rule shapeI, simp))+)
next
  case (Routing x)
  then show ?thesis
    by (cases x) (simp_all only: shape_simps, (rule shape_silent)+)
qed (simp_all only: shape_simps, (rule shapeI, simp)+)

text \<open>
  The semantics of one call, for every state: whether it faults, the new depth,
  the \<^verbatim>\<open>state\<close> pointer and the texts written are given by the depth; when the
  method returns, the last effect is the call on the wrapped delegate, whose
  result is returned and whose new state is kept.
\<close>

lemma invoke_sem:
  "\<exists>F :: int \<Rightarrow> (fault + unit) \<times> int \<times> (State option \<Rightarrow> State option) \<times> string list.
     \<forall>(rd :: 'c delegate) w. invoke X rd c w =
     (case F (indent w) of
        (Inl f, d, g, ss) \<Rightarrow>
          (Inl f, w\<lparr>indent := d, state := g (state w),
                     effects := effects w @ map StreamWrite ss\<rparr>)
      | (Inr u, d, g, ss) \<Rightarrow>
          (Inr (fst (rd c (reader w))),
           w\<lparr>indent := d, state := g (state w),
              effects := effects w @ map StreamWrite ss @ [ReaderCall c],
              reader := snd (rd c (reader w))\<rparr>))"
proof -
  obtain a :: "('c, unit) action" where a: "uniform a"
    and inv: "\<And>rd. invoke X rd c = seqs [a] (reader_call rd c)"
    using invoke_shape [of X c] by blast
  obtain F where F: "\<And>w. a w =
      (case F (indent w) of
         (r, d, g, ss) \<Rightarrow>
           (r, w\<lparr>indent := d, state := g (state w), effects := effects w @ map StreamWrite ss\<rparr>))"
    using a unfolding uniform_def by blast
  show ?thesis
    by (rule exI [where x = F])
      (simp add: inv F reader_call_def split: prod.splits sum.splits)
qed

subsection \<open>Forwarding\<close>

lemma invoke_returns:
  assumes "fits c (indent w)"
  shows "\<exists>w'. invoke X rd c w = (Inr (fst (rd c (reader w))), w')
           \<and> reader w' = snd (rd c (reader w))
           \<and> calls (effects w') = calls (effects w) @ [c]"
proof (cases c)
  case (Core x) then show ?thesis using assms by (cases x) (simp_all add: exec_simps)
next
  case (Import x) then show ?thesis using assms by (cases x) (simp_all add: exec_simps)
next
  case (Decl x) then show ?thesis using assms by (cases x) (simp_all add: exec_simps)
next
  case (Expr x) then show ?thesis using assms by (cases x) (simp_all add: exec_simps)
next
  case (Segment x) then show ?thesis using assms by (cases x) (simp_all add: exec_simps)
next
  case (InitExpr x) then show ?thesis using assms by (cases x) (simp_all add: exec_simps)
next
  case (Linking x) then show ?thesis using assms by (cases x) (simp_all add: exec_simps)
next
  case (Routing x) then show ?thesis using assms by (cases x) (simp_all add: exec_simps)
qed (use assms in \<open>simp_all add: exec_simps\<close>)

subsection \<open>The trace does not depend on the delegate\<close>

lemma invoke_agree:
  fixes rd1 rd2 :: "'c delegate"
  assumes "indent w1 = indent w2" and "stream w1 = stream w2"
  shows "isl (fst (invoke X rd1 c w1)) = isl (fst (invoke X rd2 c w2))
       \<and> indent (snd (invoke X rd1 c w1)) = indent (snd (invoke X rd2 c w2))
       \<and> stream (snd (invoke X rd1 c w1)) = stream (snd (invoke X rd2 c w2))"
proof -
  obtain F :: "int \<Rightarrow> (fault + unit) \<times> int \<times> (State option \<Rightarrow> State option) \<times> string list"
    where F: "\<And>(rd :: 'c delegate) w. invoke X rd c w =
      (case F (indent w) of
        (Inl f, d, g, ss) \<Rightarrow>
          (Inl f, w\<lparr>indent := d, state := g (state w),
                     effects := effects w @ map StreamWrite ss\<rparr>)
      | (Inr u, d, g, ss) \<Rightarrow>
          (Inr (fst (rd c (reader w))),
           w\<lparr>indent := d, state := g (state w),
              effects := effects w @ map StreamWrite ss @ [ReaderCall c],
              reader := snd (rd c (reader w))\<rparr>))"
    using invoke_sem [of X c] by blast
  show ?thesis
    using assms by (simp add: F stream_def split: prod.splits sum.splits)
qed

lemma run_agree:
  fixes rd1 rd2 :: "'c delegate"
  assumes "indent w1 = indent w2" and "stream w1 = stream w2"
  shows "isl (fst (run X rd1 cs w1)) = isl (fst (run X rd2 cs w2))
       \<and> indent (snd (run X rd1 cs w1)) = indent (snd (run X rd2 cs w2))
       \<and> stream (snd (run X rd1 cs w1)) = stream (snd (run X rd2 cs w2))"
  using assms
proof (induction cs arbitrary: w1 w2)
  case Nil
  then show ?case by simp
next
  case (Cons c cs)
  obtain r1 u1 where o1: "invoke X rd1 c w1 = (r1, u1)" by (cases "invoke X rd1 c w1")
  obtain r2 u2 where o2: "invoke X rd2 c w2 = (r2, u2)" by (cases "invoke X rd2 c w2")
  have ag: "isl r1 = isl r2" "indent u1 = indent u2" "stream u1 = stream u2"
    using invoke_agree [OF Cons.prems, where X = X and ?rd1.0 = rd1 and c = c and ?rd2.0 = rd2] by (simp_all add: o1 o2)
  show ?case
  proof (cases r1)
    case (Inl f1)
    then obtain f2 where "r2 = Inl f2" using ag(1) by (cases r2) auto
    then show ?thesis using Inl ag by (simp add: o1 o2)
  next
    case (Inr x1)
    then obtain x2 where r2: "r2 = Inr x2" using ag(1) by (cases r2) auto
    have "isl (fst (run X rd1 cs u1)) = isl (fst (run X rd2 cs u2))
       \<and> indent (snd (run X rd1 cs u1)) = indent (snd (run X rd2 cs u2))
       \<and> stream (snd (run X rd1 cs u1)) = stream (snd (run X rd2 cs u2))"
      using Cons.IH [OF ag(2) ag(3)] .
    then show ?thesis
      using Inr r2 by (auto simp: o1 o2 split: prod.splits sum.splits)
  qed
qed

subsection \<open>The width of the padding\<close>

text \<open>
  Inside the buffer \<^verbatim>\<open>WriteIndent\<close> writes exactly \<open>indent_\<close> spaces
  (lemma \<open>WriteIndent_within\<close>). Beyond it the loop writes its chunks of
  \<^verbatim>\<open>s_indent_len\<close> spaces, and the last statement then asks for \<^verbatim>\<open>indent_\<close>
  bytes of \<^verbatim>\<open>s_indent\<close>, not for the \<open>i\<close> that remain.
\<close>

lemma WriteIndent_144:
  assumes "indent w = 144"
  shows "WriteIndent w =
     (Inl OutOfBoundsRead, w\<lparr>effects := effects w @ [StreamWrite (replicate 142 (CHR '' ''))]\<rparr>)"
proof -
  let ?w1 = "w\<lparr>effects := effects w @ [StreamWrite (replicate 142 (CHR '' ''))]\<rparr>"
  have t: "take 142 s_indent = replicate 142 (CHR '' '')"
    by (simp add: s_indent_def)
  have l2: "WriteIndent_loop 2 ?w1 = (Inr 2, ?w1)"
    by (subst WriteIndent_loop.simps) (simp add: s_indent_len_eq)
  have "WriteIndent_loop 144 w = (Inr 2, ?w1)"
    by (subst WriteIndent_loop.simps) (simp add: s_indent_len_eq WriteData_def s_indent_def l2)
  then show ?thesis
    using assms by (simp add: WriteIndent_def size_t_def WriteData_def s_indent_def)
qed

lemma run_append:
  "run X rd (cs @ ds) w =
     (case run X rd cs w of
        (Inl f, w') \<Rightarrow> (Inl f, w')
      | (Inr rs, w') \<Rightarrow>
          (case run X rd ds w' of
             (Inl f, w'') \<Rightarrow> (Inl f, w'')
           | (Inr ss, w'') \<Rightarrow> (Inr (rs @ ss), w'')))"
  by (induction cs arbitrary: w) (auto split: prod.splits sum.splits)

lemma run_begins:
  "0 \<le> indent w \<Longrightarrow> indent w + 2 * int n \<le> 144 \<Longrightarrow>
   \<exists>rs w'. run X rd (replicate n (BeginCall name sz)) w = (Inr rs, w')
          \<and> indent w' = indent w + 2 * int n"
proof (induction n arbitrary: w)
  case 0
  then show ?case by simp
next
  case (Suc n)
  let ?w1 = "snd (invoke X rd (BeginCall name sz) w)"
  have step: "invoke X rd (BeginCall name sz) w = (Inr (fst (rd (BeginCall name sz) (reader w))), ?w1)"
      "indent ?w1 = indent w + 2"
    using Suc.prems by (simp_all add: exec_simps)
  have "\<exists>rs w'. run X rd (replicate n (BeginCall name sz)) ?w1 = (Inr rs, w')
          \<and> indent w' = indent ?w1 + 2 * int n"
    using Suc.prems step(2) by (intro Suc.IH) simp_all
  then show ?case
    using step by (auto split: prod.splits sum.splits)
qed

subsection \<open>Lines\<close>


lemma count_nl_fmt [simp]:
  "count_list (fmt_u w) nl = 0" "count_list (fmt_d w) nl = 0" "count_list (fmt_x w) nl = 0"
  "count_list (fmt_08x w') nl = 0" "count_list (fmt_bool b) nl = 0"
  by simp_all

lemma count_nl_fmt_sv [simp]: "newline_free s \<Longrightarrow> count_list (fmt_sv s) nl = 0"
  using set_takeWhileD [of nl "\<lambda>c. c \<noteq> CHR 0x00" s]
  by (auto simp: newline_free_def fmt_sv_def count_list_0_iff)

lemma count_nl_replicate [simp]: "count_list (replicate n (CHR '' '')) nl = 0"
  by simp

lemma count_nl_separated:
  "(\<And>s. s \<in> set ss \<Longrightarrow> count_list s nl = 0) \<Longrightarrow> count_list (concat (separated ss)) nl = 0"
  by (induction ss) auto



lemma begin_name_text [simp]:
  "count_list (begin_name_str n) nl = 0"
  "begin_name_str n \<noteq> []"
  "hd (begin_name_str n) \<noteq> CHR '' ''"
  by (cases n; simp)+

lemma end_name_text [simp]:
  "count_list (end_name_str n) nl = 0"
  "end_name_str n \<noteq> []"
  "hd (end_name_str n) \<noteq> CHR '' ''"
  by (cases n; simp)+

lemma index_name_text [simp]:
  "count_list (index_name_str n) nl = 0"
  "index_name_str n \<noteq> []"
  "hd (index_name_str n) \<noteq> CHR '' ''"
  by (cases n; simp)+

lemma index_desc_name_text [simp]:
  "count_list (index_desc_name_str n) nl = 0"
  "count_list (index_desc_name_desc n) nl = 0"
  "index_desc_name_str n \<noteq> []"
  "hd (index_desc_name_str n) \<noteq> CHR '' ''"
  by (cases n; simp)+

lemma index_index_name_text [simp]:
  "count_list (index_index_name_str n) nl = 0"
  "count_list (index_index_name_desc0 n) nl = 0"
  "count_list (index_index_name_desc1 n) nl = 0"
  "index_index_name_str n \<noteq> []"
  "hd (index_index_name_str n) \<noteq> CHR '' ''"
  by (cases n; simp)+

lemma index_index_bool_name_text [simp]:
  "count_list (index_index_bool_name_str n) nl = 0"
  "count_list (index_index_bool_name_desc0 n) nl = 0"
  "count_list (index_index_bool_name_desc1 n) nl = 0"
  "count_list (index_index_bool_name_desc2 n) nl = 0"
  "index_index_bool_name_str n \<noteq> []"
  "hd (index_index_bool_name_str n) \<noteq> CHR '' ''"
  by (cases n; simp)+

lemma opcode_name_text [simp]:
  "count_list (opcode_name_str n) nl = 0"
  "opcode_name_str n \<noteq> []"
  "hd (opcode_name_str n) \<noteq> CHR '' ''"
  by (cases n; simp)+

lemma load_store_opcode_name_text [simp]:
  "count_list (load_store_opcode_name_str n) nl = 0"
  "load_store_opcode_name_str n \<noteq> []"
  "hd (load_store_opcode_name_str n) \<noteq> CHR '' ''"
  by (cases n; simp)+

lemma define0_name_text [simp]:
  "count_list (define0_name_str n) nl = 0"
  "define0_name_str n \<noteq> []"
  "hd (define0_name_str n) \<noteq> CHR '' ''"
  by (cases n; simp)+

lemma indentation_pad [simp]:
  "ys \<noteq> [] \<Longrightarrow> hd ys \<noteq> CHR '' '' \<Longrightarrow> indentation (replicate n (CHR '' '') @ ys) = n"
  by (cases ys; induction n) (simp_all add: indentation_def)

lemma replicate_4: "replicate 4 x = [x, x, x, x]"
  by (simp add: eval_nat_numeral)


lemma count_nl_depths [simp]: "count_list (concat (separated (map fmt_u ts))) nl = 0"
  by (induction ts) simp_all



lemma invoke_indentation:
  assumes "fits c (indent w)" and "\<not> unlogged c"
  shows "\<exists>t. stream (snd (invoke X rd c w)) = stream w @ t
           \<and> indentation t = nat (if is_DEFINE_END c then indent w - INDENT_SIZE else indent w)"
proof (cases c)
  case (Core x)
  then show ?thesis using assms by (cases x) (simp_all add: exec_simps stream_def)
next
  case (Import x)
  then show ?thesis using assms by (cases x) (simp_all add: exec_simps stream_def)
next
  case (Decl x)
  then show ?thesis using assms by (cases x) (simp_all add: exec_simps stream_def)
next
  case (Expr x)
  then show ?thesis using assms by (cases x) (simp_all add: exec_simps stream_def)
next
  case (Segment x)
  then show ?thesis using assms by (cases x) (simp_all add: exec_simps stream_def)
next
  case (InitExpr x)
  then show ?thesis using assms by (cases x) (simp_all add: exec_simps stream_def)
next
  case (Linking x)
  then show ?thesis using assms by (cases x) (simp_all add: exec_simps stream_def)
next
  case (Routing x)
  then show ?thesis using assms by (cases x) (simp_all add: exec_simps stream_def)
qed (use assms in \<open>simp_all add: exec_simps stream_def\<close>)

subsection \<open>Reading a hexadecimal field back\<close>

lemma hex_digit_value_digit: "n < 16 \<Longrightarrow> hex_digit_value (digit n) = Some n"
proof -
  assume "n < 16"
  then have "n \<in> {0, 1, 2, 3, 4, 5, 6, 7, 8, 9, 10, 11, 12, 13, 14, 15}"
    by (simp; arith)
  then show ?thesis
    by (auto simp: digit_def hex_digit_value_def)
qed

lemma hex_value_from_hex:
  "hex_value_from a (hex n @ rest) = hex_value_from (a * 16 ^ length (hex n) + n) rest"
proof (induction n arbitrary: a rest rule: hex.induct)
  case (1 n)
  show ?case
  proof (cases "n < 16")
    case True
    then show ?thesis
      by (subst (1 2) hex.simps) (simp add: hex_digit_value_digit mult.commute)
  next
    case False
    have m: "n mod 16 < 16" by simp
    have "hex_value_from a (hex n @ rest)
        = hex_value_from a (hex (n div 16) @ digit (n mod 16) # rest)"
      using False by (subst hex.simps) simp
    also have "\<dots> = hex_value_from (a * 16 ^ length (hex (n div 16)) + n div 16)
        (digit (n mod 16) # rest)"
      using False by (rule "1.IH")
    also have "\<dots> = hex_value_from
        (16 * (a * 16 ^ length (hex (n div 16)) + n div 16) + n mod 16) rest"
      by (simp add: hex_digit_value_digit [OF m])
    also have "16 * (a * 16 ^ length (hex (n div 16)) + n div 16) + n mod 16
        = a * 16 ^ length (hex n) + n"
      using False by (subst (2) hex.simps) (simp add: algebra_simps)
    finally show ?thesis .
  qed
qed

lemma hex_nonempty [simp]: "hex n \<noteq> []"
  by (subst hex.simps) simp

lemma hex_value_from_zeros: "hex_value_from 0 (replicate k (CHR ''0'') @ s) = hex_value_from 0 s"
  by (induction k) (simp_all add: hex_digit_value_def)

lemma hex_value_fmt_x: "hex_value (fmt_x w) = Some (unat w)"
  using hex_value_from_hex [of 0 "unat w" "[]"] by (simp add: hex_value_def fmt_x_def)

lemma hex_value_fmt_08x: "hex_value (fmt_08x w) = Some (unat w)"
proof -
  have "fmt_08x w \<noteq> []" by (simp add: fmt_08x_def)
  then show ?thesis
    using hex_value_from_hex [of 0 "unat w" "[]"]
    by (simp add: hex_value_def fmt_08x_def hex_value_from_zeros)
qed

text \<open>A literal prefix of digits in front of \<^verbatim>\<open>%x\<close> becomes part of the number read back.\<close>

lemma hex_value_prefixed:
  "hex_value (''04'' @ fmt_x w) = Some (4 * 16 ^ length (fmt_x w) + unat w)"
  "hex_value (''08'' @ fmt_x w) = Some (8 * 16 ^ length (fmt_x w) + unat w)"
  using hex_value_from_hex [of 4 "unat w" "[]"] hex_value_from_hex [of 8 "unat w" "[]"]
  by (simp_all add: hex_value_def fmt_x_def hex_digit_value_def)

subsection \<open>Well-nested sequences of calls\<close>

lemma section_regions_eq:
  "section_regions =
     [''Module'', ''CustomSection'', ''TypeSection'', ''ImportSection'', ''FunctionSection'',
      ''TableSection'', ''MemorySection'', ''GlobalSection'', ''ExportSection'',
      ''StartSection'', ''CodeSection'', ''ElemSection'', ''DataSection'',
      ''DataCountSection'', ''NamesSection'', ''RelocSection'', ''DylinkSection'',
      ''LinkingSection'', ''EventSection'']"
  by (simp add: section_regions_def)

lemmas bracket_simps =
  bracket_of_name_def core_bracket_def decl_bracket_def segment_bracket_def depth_step_def
  section_regions_eq

lemma begin_name_bracket:
  "\<exists>r. bracket_of_name (begin_name_str name) = Opens r \<and> r \<in> set section_regions"
  by (cases name) (simp_all add: bracket_simps)

lemma end_name_bracket:
  "\<exists>r. bracket_of_name (end_name_str name) = Closes r \<and> r \<in> set section_regions"
  by (cases name) (simp_all add: bracket_simps)

lemma index_name_bracket:
  "depth_step (bracket_of_name (index_name_str name)) = 0"
  by (cases name) (simp_all add: bracket_simps)

lemma index_desc_name_bracket: "bracket_of_name (index_desc_name_str name) = Neither"
  by (cases name) (simp_all add: bracket_simps)

lemma index_index_name_bracket: "bracket_of_name (index_index_name_str name) = Neither"
  by (cases name) (simp_all add: bracket_simps)

lemma index_index_bool_name_bracket:
  "depth_step (bracket_of_name (index_index_bool_name_str name)) = 0"
  by (cases name) (simp_all add: bracket_simps)

lemma opcode_name_bracket: "bracket_of_name (opcode_name_str name) = Neither"
  by (cases name) (simp_all add: bracket_simps)

lemma load_store_opcode_name_bracket:
  "bracket_of_name (load_store_opcode_name_str name) = Neither"
  by (cases name) (simp_all add: bracket_simps)

lemma define0_name_bracket: "bracket_of_name (define0_name_str name) = Neither"
  by (cases name) (simp_all add: bracket_simps)

lemmas name_brackets =
  index_name_bracket index_desc_name_bracket index_index_name_bracket
  index_index_bool_name_bracket opcode_name_bracket load_store_opcode_name_bracket
  define0_name_bracket

lemma depth_step_Neither: "depth_step Neither = 0"
  by (simp add: depth_step_def)

text \<open>What one call does to the depth, when it fits.\<close>

lemma invoke_depth:
  assumes "fits c (indent w)"
  shows "\<exists>r w'. invoke X rd c w = (Inr r, w') \<and> indent w' = indent w + depth_step (bracket_of c)"
proof (cases c)
  case (BeginCall name sz)
  obtain r where "bracket_of_name (begin_name_str name) = Opens r" "r \<in> set section_regions"
    using begin_name_bracket by blast
  then show ?thesis using assms BeginCall by (simp add: exec_simps depth_step_def)
next
  case (EndCall name)
  obtain r where "bracket_of_name (end_name_str name) = Closes r" "r \<in> set section_regions"
    using end_name_bracket by blast
  then show ?thesis using assms EndCall by (simp add: exec_simps depth_step_def)
next
  case (Core x)
  then show ?thesis using assms by (cases x) (simp_all add: exec_simps bracket_simps)
next
  case (Import x)
  then show ?thesis using assms by (cases x) (simp_all add: exec_simps bracket_simps)
next
  case (Decl x)
  then show ?thesis using assms by (cases x) (simp_all add: exec_simps bracket_simps)
next
  case (Expr x)
  then show ?thesis using assms by (cases x) (simp_all add: exec_simps bracket_simps)
next
  case (Segment x)
  then show ?thesis using assms by (cases x) (simp_all add: exec_simps bracket_simps)
next
  case (InitExpr x)
  then show ?thesis using assms by (cases x) (simp_all add: exec_simps bracket_simps)
next
  case (Linking x)
  then show ?thesis using assms by (cases x) (simp_all add: exec_simps bracket_simps)
next
  case (Routing x)
  then show ?thesis using assms by (cases x) (simp_all add: exec_simps bracket_simps)
qed (use assms in \<open>simp_all add: exec_simps name_brackets depth_step_Neither\<close>)

lemma DEFINE_END_closes_section:
  "is_DEFINE_END c \<Longrightarrow> \<exists>r. bracket_of c = Closes r \<and> r \<in> set section_regions"
  using end_name_bracket by (cases c) simp_all

lemma fits_otherwise:
  "\<not> is_DEFINE_END c \<Longrightarrow> 0 \<le> d \<Longrightarrow> d \<le> int s_indent_len \<Longrightarrow> fits c d"
  by (simp add: fits_def)

lemma fits_DEFINE_END:
  "is_DEFINE_END c \<Longrightarrow> INDENT_SIZE \<le> d \<Longrightarrow> d - INDENT_SIZE \<le> int s_indent_len \<Longrightarrow> fits c d"
  by (simp add: fits_def)

lemma run_well_nested:
  assumes "well_nested n stack cs"
    and "length stack \<le> n"
    and "indent w = base + INDENT_SIZE * int (length (filter (\<lambda>r. r \<in> set section_regions) stack))"
    and "0 \<le> base"
    and "base + INDENT_SIZE * int n \<le> int s_indent_len"
  shows "\<exists>rs w'. run X rd cs w = (Inr rs, w') \<and> indent w' = base"
  using assms
proof (induction cs arbitrary: stack w)
  case Nil
  then show ?case by simp
next
  case (Cons c cs)
  let ?k = "length (filter (\<lambda>r. r \<in> set section_regions) stack)"
  have k: "?k \<le> n" using Cons.prems(2) length_filter_le [of _ stack] by (meson le_trans)
  have lo: "0 \<le> indent w" using Cons.prems(3,4) by (simp add: INDENT_SIZE_def)
  have hi: "indent w \<le> int s_indent_len"
    using Cons.prems(3,5) k by (simp add: INDENT_SIZE_def)
  have f: "fits c (indent w)"
  proof (cases "is_DEFINE_END c")
    case False
    then show ?thesis using lo hi by (rule fits_otherwise)
  next
    case True
    then obtain r where r: "bracket_of c = Closes r" "r \<in> set section_regions"
      using DEFINE_END_closes_section by blast
    then obtain rest where "stack = r # rest"
      using Cons.prems(1) by (cases stack) auto
    then have "INDENT_SIZE \<le> indent w"
      using Cons.prems(3,4) r(2) by (simp add: INDENT_SIZE_def)
    then show ?thesis using hi True by (intro fits_DEFINE_END) (simp_all add: INDENT_SIZE_def)
  qed
  obtain r1 w1 where step: "invoke X rd c w = (Inr r1, w1)"
    and d1: "indent w1 = indent w + depth_step (bracket_of c)"
    using invoke_depth [OF f, where X = X and rd = rd] by blast
  have "\<exists>rs w'. run X rd cs w1 = (Inr rs, w') \<and> indent w' = base"
  proof (cases "bracket_of c")
    case Neither
    then show ?thesis
      using Cons.prems d1 by (intro Cons.IH [where stack = stack]) (simp_all add: depth_step_def)
  next
    case (Opens r)
    then show ?thesis
      using Cons.prems d1
      by (intro Cons.IH [where stack = "r # stack"])
        (simp_all add: depth_step_def algebra_simps)
  next
    case (Closes r)
    then obtain rest where s: "stack = r # rest" and wn: "well_nested n rest cs"
      using Cons.prems(1) by (cases stack) auto
    show ?thesis
      using Cons.prems d1 Closes s wn
      by (intro Cons.IH [where stack = rest]) (simp_all add: depth_step_def algebra_simps)
  qed
  then show ?case using step by (auto split: prod.splits sum.splits)
qed

subsection \<open>The depth changes only in \<^verbatim>\<open>Indent\<close> and \<^verbatim>\<open>Dedent\<close>\<close>

lemma shiftsD: "shifts a k \<Longrightarrow> a w = (Inr r, w') \<Longrightarrow> indent w' = indent w + k"
  unfolding shifts_def by blast

lemma shifts_Writef: "shifts (Writef text) 0"
  by (auto simp: shifts_def Writef_def)

lemma shifts_LOGF_NOINDENT: "shifts (LOGF_NOINDENT text) 0"
  by (simp add: LOGF_NOINDENT_def shifts_Writef)

lemma shifts_WriteData: "shifts (WriteData src n) 0"
  by (auto simp: shifts_def WriteData_def split: if_splits)

lemma shifts_skip: "shifts skip 0"
  by (auto simp: shifts_def skip_def)

lemma shifts_Indent: "shifts Indent INDENT_SIZE"
  by (auto simp: shifts_def Indent_def)

lemma shifts_Dedent: "shifts Dedent (- INDENT_SIZE)"
  by (auto simp: shifts_def Dedent_def Let_def split: if_splits)

lemma shifts_OnSetState: "shifts (BinaryReaderDelegate_OnSetState s) 0"
  by (auto simp: shifts_def BinaryReaderDelegate_OnSetState_def)

lemma shifts_reader_call: "shifts (reader_call rd c) 0"
  by (auto simp: shifts_def reader_call_def)

lemma shifts_seqs_Nil: "shifts k m \<Longrightarrow> shifts (seqs [] k) m"
  by (simp add: seqs_Nil_fun)

lemma shifts_seqs_Cons:
  assumes "shifts a j" and "shifts (seqs acts k) m" and "n = j + m"
  shows "shifts (seqs (a # acts) k) n"
  unfolding shifts_def
proof (intro allI impI)
  fix w r w'
  assume run: "seqs (a # acts) k w = (Inr r, w')"
  obtain r1 w1 where a: "a w = (r1, w1)" by (cases "a w")
  show "indent w' = indent w + n"
  proof (cases r1)
    case (Inl f)
    then show ?thesis using run a by simp
  next
    case (Inr u)
    then have "seqs acts k w1 = (Inr r, w')" using run a by simp
    then have "indent w' = indent w1 + m" using assms(2) by (rule shiftsD [rotated])
    moreover have "indent w1 = indent w + j" using assms(1) a Inr by (auto dest: shiftsD)
    ultimately show ?thesis using assms(3) by simp
  qed
qed

lemma shifts_WriteIndent_loop: "shifts (WriteIndent_loop i :: ('c, nat) action) 0"
proof (induction i rule: less_induct)
  case (less i)
  show ?case
    unfolding shifts_def
  proof (intro allI impI)
    fix w :: "'c logging" and r w'
    assume run: "WriteIndent_loop i w = (Inr r, w')"
    show "indent w' = indent w + 0"
    proof (cases "i > s_indent_len")
      case False
      then show ?thesis using run by (subst (asm) WriteIndent_loop.simps) simp
    next
      case True
      then have lt: "i - s_indent_len < i" by (simp add: s_indent_len_eq)
      let ?w1 = "w\<lparr>effects := effects w @ [StreamWrite (take s_indent_len s_indent)]\<rparr>"
      have "WriteData s_indent s_indent_len w = (Inr (), ?w1)"
        by (simp add: WriteData_def s_indent_len_def)
      then have "WriteIndent_loop (i - s_indent_len) ?w1 = (Inr r, w')"
        using run True by (subst (asm) WriteIndent_loop.simps) simp
      then have "indent w' = indent ?w1 + 0"
        using less.IH [OF lt] by (rule shiftsD [rotated])
      then show ?thesis by simp
    qed
  qed
qed

lemma shifts_WriteIndent: "shifts WriteIndent 0"
  unfolding shifts_def
proof (intro allI impI)
  fix w :: "'a logging" and r w'
  assume run: "WriteIndent w = (Inr r, w')"
  obtain r1 w1 where l: "WriteIndent_loop (size_t (indent w)) w = (r1, w1)"
    by (cases "WriteIndent_loop (size_t (indent w)) w")
  show "indent w' = indent w + 0"
  proof (cases r1)
    case (Inl f)
    then show ?thesis using run l by (simp add: WriteIndent_def)
  next
    case (Inr i)
    then have w1: "indent w1 = indent w"
      using shiftsD [OF shifts_WriteIndent_loop, of "size_t (indent w)" w i w1] l by simp
    show ?thesis
    proof (cases "i > 0")
      case True
      then have "WriteData s_indent (size_t (indent w1)) w1 = (Inr r, w')"
        using run l Inr by (simp add: WriteIndent_def)
      then show ?thesis using shiftsD [OF shifts_WriteData] w1 by fastforce
    next
      case False
      then show ?thesis using run l Inr w1 by (simp add: WriteIndent_def)
    qed
  qed
qed

lemma shifts_LOGF: "shifts (LOGF text) 0"
  unfolding LOGF_def
  by (rule shifts_seqs_Cons shifts_seqs_Nil shifts_WriteIndent shifts_LOGF_NOINDENT | simp)+

lemma shifts_LogType: "shifts (LogType X t) 0"
  by (simp add: LogType_def shifts_LOGF_NOINDENT)

lemma shifts_LogTypes_loop: "shifts (LogTypes_loop X ts) 0"
proof (induction ts)
  case Nil
  show ?case by (simp add: shifts_skip)
next
  case (Cons t ts)
  show ?case
  proof (cases "ts = []")
    case True
    then show ?thesis
      using Cons
      by (simp only: LogTypes_loop.simps if_False if_True not_False_eq_True append_Nil2
            append_Cons append_Nil simp_thms)
        (rule shifts_seqs_Cons shifts_seqs_Nil shifts_LogType | simp)+
  next
    case False
    then show ?thesis
      using Cons
      by (simp only: LogTypes_loop.simps if_False if_True not_False_eq_True append_Nil2
            append_Cons append_Nil simp_thms)
        (rule shifts_seqs_Cons shifts_seqs_Nil shifts_LogType shifts_LOGF_NOINDENT | simp)+
  qed
qed

lemma shifts_LogTypes: "shifts (LogTypes X ts) 0"
  unfolding LogTypes_def
  by (rule shifts_seqs_Cons shifts_seqs_Nil shifts_LogTypes_loop shifts_LOGF_NOINDENT | simp)+

lemma shifts_target_depths_loop: "shifts (target_depths_loop ts) 0"
proof (induction ts)
  case Nil
  show ?case by (simp add: shifts_skip)
next
  case (Cons t ts)
  show ?case
  proof (cases "ts = []")
    case True
    then show ?thesis
      using Cons
      by (simp only: target_depths_loop.simps if_False if_True not_False_eq_True append_Nil2
            append_Cons append_Nil simp_thms)
        (rule shifts_seqs_Cons shifts_seqs_Nil shifts_LOGF_NOINDENT | simp)+
  next
    case False
    then show ?thesis
      using Cons
      by (simp only: target_depths_loop.simps if_False if_True not_False_eq_True append_Nil2
            append_Cons append_Nil simp_thms)
        (rule shifts_seqs_Cons shifts_seqs_Nil shifts_LOGF_NOINDENT | simp)+
  qed
qed

lemmas shifts_intros =
  shifts_seqs_Cons shifts_seqs_Nil shifts_reader_call shifts_LOGF shifts_LOGF_NOINDENT
  shifts_LogType shifts_LogTypes shifts_target_depths_loop shifts_Indent shifts_Dedent
  shifts_OnSetState

lemma begin_name_step: "depth_step (bracket_of_name (begin_name_str name)) = INDENT_SIZE"
  using begin_name_bracket [of name] by (auto simp: depth_step_def)

lemma end_name_step: "depth_step (bracket_of_name (end_name_str name)) = - INDENT_SIZE"
  using end_name_bracket [of name] by (auto simp: depth_step_def)

lemmas step_simps =
  bracket_of.simps begin_name_step end_name_step name_brackets depth_step_Neither
  core_bracket_def decl_bracket_def segment_bracket_def

text \<open>What one call does to the depth, whenever it returns.\<close>

lemma invoke_shifts: "shifts (invoke X rd c) (depth_step (bracket_of c))"
proof (cases c)
  case (Core x)
  then show ?thesis
    by (cases x)
      (simp_all only: shape_simps step_simps core_call.case,
       (rule shifts_intros | simp add: depth_step_def section_regions_eq)+)
next
  case (Import x)
  then show ?thesis
    by (cases x) (simp_all only: shape_simps step_simps, (rule shifts_intros | simp)+)
next
  case (Decl x)
  then show ?thesis
    by (cases x)
      (simp_all only: shape_simps step_simps decl_call.case,
       (rule shifts_intros | simp add: depth_step_def section_regions_eq)+)
next
  case (Expr x)
  then show ?thesis
    by (cases x) (simp_all only: shape_simps step_simps, (rule shifts_intros | simp)+)
next
  case (Segment x)
  then show ?thesis
    by (cases x)
      (simp_all only: shape_simps step_simps segment_call.case,
       (rule shifts_intros | simp add: depth_step_def section_regions_eq)+)
next
  case (InitExpr x)
  then show ?thesis
    by (cases x) (simp_all only: shape_simps step_simps, (rule shifts_intros | simp)+)
next
  case (Linking x)
  then show ?thesis
    by (cases x) (simp_all only: shape_simps step_simps, (rule shifts_intros | simp)+)
next
  case (Routing x)
  then show ?thesis
    by (cases x) (simp_all only: shape_simps step_simps, (rule shifts_intros | simp)+)
qed (simp_all only: shape_simps step_simps, (rule shifts_intros | simp)+)

lemma run_balanced:
  assumes "well_nested n stack cs" and "run X rd cs w = (Inr rs, w')"
  shows "indent w' =
     indent w - INDENT_SIZE * int (length (filter (\<lambda>r. r \<in> set section_regions) stack))"
  using assms
proof (induction cs arbitrary: stack w rs)
  case Nil
  then show ?case by simp
next
  case (Cons c cs)
  obtain r1 w1 where step: "invoke X rd c w = (r1, w1)" by (cases "invoke X rd c w")
  obtain x1 where r1: "r1 = Inr x1"
    using Cons.prems(2) step by (cases r1) auto
  obtain r2 w2 where rest: "run X rd cs w1 = (r2, w2)" by (cases "run X rd cs w1")
  obtain rs' where r2: "r2 = Inr rs'"
    using Cons.prems(2) step r1 rest by (cases r2) auto
  have w2: "w2 = w'" using Cons.prems(2) step r1 rest r2 by simp
  have d1: "indent w1 = indent w + depth_step (bracket_of c)"
    using shiftsD [OF invoke_shifts] step r1 by blast
  have run': "run X rd cs w1 = (Inr rs', w')" using rest r2 w2 by simp
  show ?case
  proof (cases "bracket_of c")
    case Neither
    then have "well_nested n stack cs" using Cons.prems(1) by simp
    from Cons.IH [OF this run'] show ?thesis using d1 Neither by (simp add: depth_step_def)
  next
    case (Opens r)
    then have "well_nested n (r # stack) cs" using Cons.prems(1) by simp
    from Cons.IH [OF this run'] show ?thesis
      using d1 Opens by (cases "r \<in> set section_regions") (simp_all add: depth_step_def INDENT_SIZE_def)
  next
    case (Closes r)
    then obtain tail where s: "stack = r # tail" and wn: "well_nested n tail cs"
      using Cons.prems(1) by (cases stack) auto
    from Cons.IH [OF wn run'] show ?thesis
      using d1 Closes s by (cases "r \<in> set section_regions") (simp_all add: depth_step_def INDENT_SIZE_def)
  qed
qed

section \<open>The claims\<close>

subsection \<open>C1: Transparency of forwarding\<close>

text \<open>
  C1 as stated fails where the assertion of \<^verbatim>\<open>Dedent\<close> fails: a \<^verbatim>\<open>DEFINE_END\<close>
  method called at depth zero ends in the failed assertion, and the wrapped
  delegate, which has a result for the call, is never called.
\<close>

theorem forwarding_counterexample:
  "invoke sample_externals accepting_delegate (EndCall EndModule) (BinaryReaderLogging 0)
     = (Inl AssertionFailed, (BinaryReaderLogging 0)\<lparr>indent := - 2\<rparr>)
   \<and> calls (effects (snd (invoke sample_externals accepting_delegate (EndCall EndModule)
        (BinaryReaderLogging 0)))) = []
   \<and> reader (snd (invoke sample_externals accepting_delegate (EndCall EndModule)
        (BinaryReaderLogging 0))) = 0
   \<and> accepting_delegate (EndCall EndModule) 0 = (ResultVal Ok, 1)"
  by (simp add: DEFINE_END_def Dedent_def INDENT_SIZE_def BinaryReaderLogging_def
      accepting_delegate_def)

text \<open>
  C1, amended. Transparency of forwarding, for every call \<open>c\<close> of the
  interface, every wrapped delegate \<open>rd\<close> and every state \<open>w\<close>.
  (i) When the call fits the depth (the assertion of \<^verbatim>\<open>Dedent\<close> holds and the
  padding lies inside \<^verbatim>\<open>s_indent\<close>), the method returns the result the delegate
  gives for that call, the delegate has taken exactly one step, and exactly the
  call \<open>c\<close> (same method, same arguments) has been added to the calls made on
  it. (ii) At any depth, a method that returns has done exactly that.
  (iii) A \<^verbatim>\<open>DEFINE_END\<close> method called below one step of depth ends in the
  failed assertion, the delegate not called.
\<close>

theorem forwarding_transparent:
  "(fits c (indent w) \<longrightarrow>
      fst (invoke X rd c w) = Inr (fst (rd c (reader w)))
      \<and> reader (snd (invoke X rd c w)) = snd (rd c (reader w))
      \<and> calls (effects (snd (invoke X rd c w))) = calls (effects w) @ [c])
   \<and> (\<forall>r w'. invoke X rd c w = (Inr r, w') \<longrightarrow>
        r = fst (rd c (reader w)) \<and> reader w' = snd (rd c (reader w))
        \<and> calls (effects w') = calls (effects w) @ [c])
   \<and> (indent w < INDENT_SIZE \<longrightarrow>
        invoke X rd (EndCall name) w
          = (Inl AssertionFailed, w\<lparr>indent := indent w - INDENT_SIZE\<rparr>)
        \<and> calls (effects (snd (invoke X rd (EndCall name) w))) = calls (effects w)
        \<and> reader (snd (invoke X rd (EndCall name) w)) = reader w)"
proof -
  obtain F :: "int \<Rightarrow> (fault + unit) \<times> int \<times> (State option \<Rightarrow> State option) \<times> string list"
    where F: "\<And>w. invoke X rd c w =
      (case F (indent w) of
        (Inl f, d, g, ss) \<Rightarrow>
          (Inl f, w\<lparr>indent := d, state := g (state w),
                     effects := effects w @ map StreamWrite ss\<rparr>)
      | (Inr u, d, g, ss) \<Rightarrow>
          (Inr (fst (rd c (reader w))),
           w\<lparr>indent := d, state := g (state w),
              effects := effects w @ map StreamWrite ss @ [ReaderCall c],
              reader := snd (rd c (reader w))\<rparr>))"
    using invoke_sem [of X c] by blast
  have i: "fits c (indent w) \<longrightarrow>
      fst (invoke X rd c w) = Inr (fst (rd c (reader w)))
      \<and> reader (snd (invoke X rd c w)) = snd (rd c (reader w))
      \<and> calls (effects (snd (invoke X rd c w))) = calls (effects w) @ [c]"
    using invoke_returns [where c = c and w = w and X = X and rd = rd] by auto
  have ii: "\<forall>r w'. invoke X rd c w = (Inr r, w') \<longrightarrow>
        r = fst (rd c (reader w)) \<and> reader w' = snd (rd c (reader w))
        \<and> calls (effects w') = calls (effects w) @ [c]"
    by (auto simp: F split: prod.splits sum.splits)
  have iii: "indent w < INDENT_SIZE \<longrightarrow>
        invoke X rd (EndCall name) w
          = (Inl AssertionFailed, w\<lparr>indent := indent w - INDENT_SIZE\<rparr>)
        \<and> calls (effects (snd (invoke X rd (EndCall name) w))) = calls (effects w)
        \<and> reader (snd (invoke X rd (EndCall name) w)) = reader w"
    by (simp add: DEFINE_END_def Dedent_def Let_def)
  from i ii iii show ?thesis by (intro conjI)
qed

theorem forwarding_transparent_witness:
  "fits (EndCall EndModule) (indent ((BinaryReaderLogging (0::nat))\<lparr>indent := 2\<rparr>))
   \<and> fst (invoke sample_externals refusing_delegate (EndCall EndModule)
          ((BinaryReaderLogging 0)\<lparr>indent := 2\<rparr>)) = Inr (ResultVal Error)
   \<and> reader (snd (invoke sample_externals refusing_delegate (EndCall EndModule)
          ((BinaryReaderLogging 0)\<lparr>indent := 2\<rparr>))) = 1
   \<and> calls (effects (snd (invoke sample_externals refusing_delegate (EndCall EndModule)
          ((BinaryReaderLogging 0)\<lparr>indent := 2\<rparr>)))) = [EndCall EndModule]
   \<and> fst (invoke sample_externals refusing_delegate (EndCall EndModule)
          (BinaryReaderLogging 0)) = Inl AssertionFailed
   \<and> calls (effects (snd (invoke sample_externals refusing_delegate (EndCall EndModule)
          (BinaryReaderLogging 0)))) = []"
proof -
  have f: "fits (EndCall EndModule) (indent ((BinaryReaderLogging (0::nat))\<lparr>indent := 2\<rparr>))"
    by (simp add: fits_def BinaryReaderLogging_def s_indent_len_eq INDENT_SIZE_def)
  have lt: "indent (BinaryReaderLogging (0::nat)) < INDENT_SIZE"
    by (simp add: BinaryReaderLogging_def INDENT_SIZE_def)
  have r: "fst (refusing_delegate (EndCall EndModule) (0::nat)) = ResultVal Error"
    "snd (refusing_delegate (EndCall EndModule) (0::nat)) = 1"
    "reader ((BinaryReaderLogging (0::nat))\<lparr>indent := 2\<rparr>) = 0"
    "calls (effects ((BinaryReaderLogging (0::nat))\<lparr>indent := 2\<rparr>)) = []"
    "calls (effects (BinaryReaderLogging (0::nat))) = []"
    by (simp_all add: refusing_delegate_def BinaryReaderLogging_def)
  have A: "fst (invoke sample_externals refusing_delegate (EndCall EndModule)
          ((BinaryReaderLogging 0)\<lparr>indent := 2\<rparr>))
        = Inr (fst (refusing_delegate (EndCall EndModule)
            (reader ((BinaryReaderLogging (0::nat))\<lparr>indent := 2\<rparr>))))
      \<and> reader (snd (invoke sample_externals refusing_delegate (EndCall EndModule)
          ((BinaryReaderLogging 0)\<lparr>indent := 2\<rparr>)))
        = snd (refusing_delegate (EndCall EndModule)
            (reader ((BinaryReaderLogging (0::nat))\<lparr>indent := 2\<rparr>)))
      \<and> calls (effects (snd (invoke sample_externals refusing_delegate (EndCall EndModule)
          ((BinaryReaderLogging 0)\<lparr>indent := 2\<rparr>))))
        = calls (effects ((BinaryReaderLogging (0::nat))\<lparr>indent := 2\<rparr>)) @ [EndCall EndModule]"
    using f forwarding_transparent [where X = sample_externals and rd = refusing_delegate
        and c = "EndCall EndModule" and name = EndModule
        and w = "(BinaryReaderLogging 0)\<lparr>indent := 2\<rparr>"]
    by blast
  have B: "invoke sample_externals refusing_delegate (EndCall EndModule) (BinaryReaderLogging 0)
        = (Inl AssertionFailed,
           (BinaryReaderLogging 0)\<lparr>indent := indent (BinaryReaderLogging (0::nat)) - INDENT_SIZE\<rparr>)
      \<and> calls (effects (snd (invoke sample_externals refusing_delegate (EndCall EndModule)
          (BinaryReaderLogging 0)))) = calls (effects (BinaryReaderLogging (0::nat)))"
    using lt forwarding_transparent [where X = sample_externals and rd = refusing_delegate
        and c = "EndCall EndModule" and name = EndModule and w = "BinaryReaderLogging 0"]
    by blast
  from A have A': "fst (invoke sample_externals refusing_delegate (EndCall EndModule)
          ((BinaryReaderLogging 0)\<lparr>indent := 2\<rparr>)) = Inr (ResultVal Error)
      \<and> reader (snd (invoke sample_externals refusing_delegate (EndCall EndModule)
          ((BinaryReaderLogging 0)\<lparr>indent := 2\<rparr>))) = 1
      \<and> calls (effects (snd (invoke sample_externals refusing_delegate (EndCall EndModule)
          ((BinaryReaderLogging 0)\<lparr>indent := 2\<rparr>)))) = [EndCall EndModule]"
    by (simp only: r append_Nil)
  have B1: "fst (invoke sample_externals refusing_delegate (EndCall EndModule)
          (BinaryReaderLogging 0)) = Inl AssertionFailed"
    by (subst conjunct1 [OF B]) (rule fst_conv)
  have B2: "calls (effects (snd (invoke sample_externals refusing_delegate (EndCall EndModule)
          (BinaryReaderLogging 0)))) = []"
    by (rule trans [OF conjunct2 [OF B] r(5)])
  note B' = conjI [OF B1 B2]
  from f A' B' show ?thesis by (intro conjI) (simp_all only: simp_thms)
qed

subsection \<open>C2: One line per logged call\<close>




subsection \<open>C3: The width of the padding\<close>

text \<open>
  C3 (the source does not do what the claim says). At depth 144, two columns
  past the buffer, \<^verbatim>\<open>WriteIndent\<close> writes one chunk of 142 spaces and then reads
  144 bytes from the 143-byte array \<^verbatim>\<open>s_indent\<close>; it does not write 144 spaces.
  The depth is reached from the constructor by 72 begin calls without their end
  calls, and the next logged call then faults.
\<close>

theorem WriteIndent_beyond_buffer:
  "WriteIndent ((BinaryReaderLogging r)\<lparr>indent := 144\<rparr>)
     = (Inl OutOfBoundsRead,
        (BinaryReaderLogging r)\<lparr>indent := 144,
           effects := [StreamWrite (replicate 142 (CHR '' ''))]\<rparr>)
   \<and> fst (run X rd (replicate 72 (BeginCall BeginTypeSection 0) @ [IndexCall OnTypeCount 0])
            (BinaryReaderLogging r)) = Inl OutOfBoundsRead"
proof -
  have a: "WriteIndent ((BinaryReaderLogging r)\<lparr>indent := 144\<rparr>)
     = (Inl OutOfBoundsRead,
        (BinaryReaderLogging r)\<lparr>indent := 144,
           effects := [StreamWrite (replicate 142 (CHR '' ''))]\<rparr>)"
    by (subst WriteIndent_144) (simp_all add: BinaryReaderLogging_def)
  obtain rs w' where run72:
    "run X rd (replicate 72 (BeginCall BeginTypeSection 0)) (BinaryReaderLogging r) = (Inr rs, w')"
    and d: "indent w' = 144"
    using run_begins [where w = "BinaryReaderLogging r" and n = 72 and X = X and rd = rd
        and name = BeginTypeSection and sz = 0]
    by (auto simp: BinaryReaderLogging_def)
  have "\<exists>w''. invoke X rd (IndexCall OnTypeCount 0) w' = (Inl OutOfBoundsRead, w'')"
    by (simp add: DEFINE_INDEX_def LOGF_def WriteIndent_144 [OF d])
  then have b: "fst (run X rd (replicate 72 (BeginCall BeginTypeSection 0) @ [IndexCall OnTypeCount 0])
            (BinaryReaderLogging r)) = Inl OutOfBoundsRead"
    by (auto simp: run_append run72)
  show ?thesis using a b by simp
qed

subsection \<open>C4: The hexadecimal field of a float constant\<close>

text \<open>
  C4 (the source does not do what the claim says). The format of
  \<^verbatim>\<open>OnF32ConstExpr\<close> is \<^verbatim>\<open>"OnF32ConstExpr(%g (0x04%x))\n"\<close>: the characters
  \<open>04\<close> are literal text in front of \<^verbatim>\<open>%x\<close>, not a width. The hexadecimal
  field after \<open>0x\<close> is therefore \<open>04\<close> followed by the digits of the bits, and
  read back it is never the bits: for the bits 0 the field is \<open>040\<close>, which is
  64. The same holds for \<^verbatim>\<open>OnF64ConstExpr\<close> with \<open>08\<close>.
\<close>

theorem float_hex_field_reads_back_wrong:
  "stream (snd (invoke X rd (Expr (OnF32ConstExpr bits32)) (BinaryReaderLogging r)))
     = ''OnF32ConstExpr('' @ printf_g32 X bits32 @ '' (0x'' @ (''04'' @ fmt_x bits32)
         @ ''))\<newline>''
   \<and> hex_value (''04'' @ fmt_x bits32) \<noteq> Some (unat bits32)
   \<and> stream (snd (invoke X rd (Expr (OnF64ConstExpr bits64)) (BinaryReaderLogging r)))
     = ''OnF64ConstExpr('' @ printf_g64 X bits64 @ '' (0x'' @ (''08'' @ fmt_x bits64)
         @ ''))\<newline>''
   \<and> hex_value (''08'' @ fmt_x bits64) \<noteq> Some (unat bits64)
   \<and> ''04'' @ fmt_x (0 :: 32 word) = ''040'' \<and> hex_value ''040'' = Some 64"
proof -
  have "stream (snd (invoke X rd (Expr (OnF32ConstExpr bits32)) (BinaryReaderLogging r)))
     = ''OnF32ConstExpr('' @ printf_g32 X bits32 @ '' (0x'' @ (''04'' @ fmt_x bits32)
         @ ''))\<newline>''"
    "stream (snd (invoke X rd (Expr (OnF64ConstExpr bits64)) (BinaryReaderLogging r)))
     = ''OnF64ConstExpr('' @ printf_g64 X bits64 @ '' (0x'' @ (''08'' @ fmt_x bits64)
         @ ''))\<newline>''"
    by (simp_all add: exec_simps BinaryReaderLogging_def stream_def)
  moreover have "hex_value (''04'' @ fmt_x bits32) \<noteq> Some (unat bits32)"
    "hex_value (''08'' @ fmt_x bits64) \<noteq> Some (unat bits64)"
    by (simp_all only: hex_value_prefixed) simp_all
  moreover have "''04'' @ fmt_x (0 :: 32 word) = ''040''" "hex_value ''040'' = Some 64"
    by (simp_all add: fmt_x_def hex.simps digit_def hex_value_def hex_digit_value_def)
  ultimately show ?thesis by simp
qed

subsection \<open>C5: Indentation balance\<close>

text \<open>
  C5. Indentation balance. The constructor sets the depth to zero. Let a
  sequence of calls be well nested: each begin call is matched by its own end
  call, properly nested (with at most \<open>n\<close> regions open at once). Whenever the
  run over the sequence returns, the depth after the last call equals the
  depth before the first. And the run does return when \<open>n\<close> levels above the
  starting depth still lie inside the padding buffer.
\<close>

theorem indentation_balance:
  assumes "well_nested n [] cs"
  shows "indent (BinaryReaderLogging forward) = 0
       \<and> (\<forall>rs w'. run X rd cs w = (Inr rs, w') \<longrightarrow> indent w' = indent w)
       \<and> (0 \<le> indent w \<and> indent w + INDENT_SIZE * int n \<le> int s_indent_len \<longrightarrow>
            (\<exists>rs w'. run X rd cs w = (Inr rs, w')))"
proof -
  have c0: "indent (BinaryReaderLogging forward) = 0"
    by (simp add: BinaryReaderLogging_def)
  have c1: "\<forall>rs w'. run X rd cs w = (Inr rs, w') \<longrightarrow> indent w' = indent w"
  proof (intro allI impI)
    fix rs w'
    assume "run X rd cs w = (Inr rs, w')"
    from run_balanced [OF assms this] show "indent w' = indent w" by simp
  qed
  have c2: "0 \<le> indent w \<and> indent w + INDENT_SIZE * int n \<le> int s_indent_len \<longrightarrow>
            (\<exists>rs w'. run X rd cs w = (Inr rs, w'))"
  proof (intro impI)
    assume h: "0 \<le> indent w \<and> indent w + INDENT_SIZE * int n \<le> int s_indent_len"
    have "\<exists>rs w'. run X rd cs w = (Inr rs, w') \<and> indent w' = indent w"
    proof (rule run_well_nested [OF assms])
      show "length ([] :: string list) \<le> n" by simp
      show "indent w = indent w
          + INDENT_SIZE * int (length (filter (\<lambda>r. r \<in> set section_regions) []))"
        by simp
      show "0 \<le> indent w" using h by (rule conjunct1)
      show "indent w + INDENT_SIZE * int n \<le> int s_indent_len" using h by (rule conjunct2)
    qed
    then show "\<exists>rs w'. run X rd cs w = (Inr rs, w')" by blast
  qed
  from c0 c1 c2 show ?thesis by (intro conjI)
qed

theorem indentation_balance_witness:
  "well_nested 2 [] sample_module
   \<and> (\<exists>rs w'. run sample_externals accepting_delegate sample_module (BinaryReaderLogging 0)
         = (Inr rs, w') \<and> indent w' = 0)"
proof -
  have wn: "well_nested 2 [] sample_module"
    by (simp add: sample_module_def bracket_simps)
  have i0: "indent (BinaryReaderLogging (0::nat)) = 0"
    by (simp add: BinaryReaderLogging_def)
  have h: "0 \<le> indent (BinaryReaderLogging (0::nat))
      \<and> indent (BinaryReaderLogging (0::nat)) + INDENT_SIZE * int 2 \<le> int s_indent_len"
    by (simp add: i0 INDENT_SIZE_def s_indent_len_eq)
  have "\<exists>rs w'. run sample_externals accepting_delegate sample_module (BinaryReaderLogging 0)
      = (Inr rs, w')"
    using h indentation_balance [OF wn, where X = sample_externals and rd = accepting_delegate
        and forward = "0::nat" and w = "BinaryReaderLogging (0::nat)"]
    by blast
  then obtain rs w' where r: "run sample_externals accepting_delegate sample_module
      (BinaryReaderLogging 0) = (Inr rs, w')"
    by blast
  have "indent w' = indent (BinaryReaderLogging (0::nat))"
    using r indentation_balance [OF wn, where X = sample_externals and rd = accepting_delegate
        and forward = "0::nat" and w = "BinaryReaderLogging (0::nat)"]
    by blast
  then have "indent w' = 0" by (simp only: i0)
  then show ?thesis using wn r by blast
qed

subsection \<open>C6: Depth steps\<close>

text \<open>
  C6 as stated fails for two of the three regions it names: entering a function
  body or a global definition leaves the depth as it is (and so do their end
  calls, which are \<^verbatim>\<open>DEFINE_INDEX\<close> methods).
\<close>

theorem region_depth_counterexample:
  "invoke sample_externals accepting_delegate (Decl (BeginFunctionBody 0 4))
       ((BinaryReaderLogging 0)\<lparr>indent := 4\<rparr>)
     = (Inr (ResultVal Ok),
        \<lparr>indent = 4, state = None,
         effects = [StreamWrite ''    '', StreamWrite ''BeginFunctionBody(0, size:4)\<newline>'',
                    ReaderCall (Decl (BeginFunctionBody 0 4))],
         reader = 1\<rparr>)
   \<and> indent (snd (invoke sample_externals accepting_delegate (Decl (BeginGlobal 0 0x7F False))
       ((BinaryReaderLogging 0)\<lparr>indent := 4\<rparr>))) = 4"
  by (simp add: exec_simps BinaryReaderLogging_def accepting_delegate_def pad_def replicate_4
      fmt_u_def fmt_d_def dec.simps digit_def)

text \<open>
  C6, amended. At a depth whose next level still lies inside the buffer:
  \<^verbatim>\<open>BeginModule\<close>, \<^verbatim>\<open>BeginCustomSection\<close> and every \<^verbatim>\<open>DEFINE_BEGIN\<close> method (the
  sections) raise the depth by \<^verbatim>\<open>INDENT_SIZE\<close> (two columns); every \<^verbatim>\<open>DEFINE_END\<close>
  method lowers it by the same step, so a section's end call restores the depth
  its begin call found; a logged call made inside the section has its line
  indented by the raised depth. \<^verbatim>\<open>BeginFunctionBody\<close>, \<^verbatim>\<open>EndFunctionBody\<close>,
  \<^verbatim>\<open>BeginGlobal\<close> and \<^verbatim>\<open>EndGlobal\<close> leave the depth unchanged.
\<close>

theorem section_depth_steps:
  assumes "0 \<le> indent w" and "indent w + INDENT_SIZE \<le> int s_indent_len"
  shows "indent (snd (invoke X rd (BeginCall name sz) w)) = indent w + INDENT_SIZE
     \<and> indent (snd (invoke X rd (Core (BeginModule version)) w)) = indent w + INDENT_SIZE
     \<and> indent (snd (invoke X rd (Core (BeginCustomSection custom_size section_name)) w))
         = indent w + INDENT_SIZE
     \<and> indent (snd (invoke X rd (EndCall ename) (w\<lparr>indent := indent w + INDENT_SIZE\<rparr>)))
         = indent w
     \<and> indent (snd (invoke X rd (EndCall ename) (snd (invoke X rd (BeginCall name sz) w))))
         = indent w
     \<and> (fits c (indent w + INDENT_SIZE) \<and> \<not> unlogged c \<and> \<not> is_DEFINE_END c \<longrightarrow>
          (\<exists>t. stream (snd (invoke X rd c (snd (invoke X rd (BeginCall name sz) w))))
                  = stream (snd (invoke X rd (BeginCall name sz) w)) @ t
             \<and> indentation t = nat (indent w + INDENT_SIZE)))
     \<and> indent (snd (invoke X rd (Decl (BeginFunctionBody k body_size)) w)) = indent w
     \<and> indent (snd (invoke X rd (IndexCall EndFunctionBody k) w)) = indent w
     \<and> indent (snd (invoke X rd (Decl (BeginGlobal index type mutable)) w)) = indent w
     \<and> indent (snd (invoke X rd (IndexCall EndGlobal k) w)) = indent w"
proof -
  let ?w1 = "snd (invoke X rd (BeginCall name sz) w)"
  have d1: "indent ?w1 = indent w + INDENT_SIZE"
    using assms by (simp add: exec_simps)
  have inner: "\<exists>t. stream (snd (invoke X rd c ?w1)) = stream ?w1 @ t
      \<and> indentation t = nat (indent w + INDENT_SIZE)"
    if "fits c (indent w + INDENT_SIZE)" "\<not> unlogged c" "\<not> is_DEFINE_END c"
    using invoke_indentation [where c = c and w = ?w1 and X = X and rd = rd] that d1 by simp
  have rest: "indent (snd (invoke X rd (Core (BeginModule version)) w)) = indent w + INDENT_SIZE"
    "indent (snd (invoke X rd (Core (BeginCustomSection custom_size section_name)) w))
       = indent w + INDENT_SIZE"
    "indent (snd (invoke X rd (EndCall ename) (w\<lparr>indent := indent w + INDENT_SIZE\<rparr>))) = indent w"
    "indent (snd (invoke X rd (EndCall ename) ?w1)) = indent w"
    "indent (snd (invoke X rd (Decl (BeginFunctionBody k body_size)) w)) = indent w"
    "indent (snd (invoke X rd (IndexCall EndFunctionBody k) w)) = indent w"
    "indent (snd (invoke X rd (Decl (BeginGlobal index type mutable)) w)) = indent w"
    "indent (snd (invoke X rd (IndexCall EndGlobal k) w)) = indent w"
    using assms by (simp_all add: exec_simps)
  show ?thesis using d1 inner rest by blast
qed

theorem section_depth_steps_witness:
  "0 \<le> indent (BinaryReaderLogging (0::nat))
   \<and> indent (BinaryReaderLogging (0::nat)) + INDENT_SIZE \<le> int s_indent_len
   \<and> indent (snd (invoke sample_externals accepting_delegate (BeginCall BeginTypeSection 12)
        (BinaryReaderLogging 0))) = 2
   \<and> indent (snd (invoke sample_externals accepting_delegate (EndCall EndTypeSection)
        (snd (invoke sample_externals accepting_delegate (BeginCall BeginTypeSection 12)
           (BinaryReaderLogging 0))))) = 0
   \<and> fits (IndexCall OnTypeCount 1) 2
   \<and> (\<exists>t. stream (snd (invoke sample_externals accepting_delegate (IndexCall OnTypeCount 1)
              (snd (invoke sample_externals accepting_delegate (BeginCall BeginTypeSection 12)
                 (BinaryReaderLogging 0)))))
            = stream (snd (invoke sample_externals accepting_delegate
                 (BeginCall BeginTypeSection 12) (BinaryReaderLogging 0))) @ t
          \<and> indentation t = 2)
   \<and> indent (snd (invoke sample_externals accepting_delegate (Decl (BeginFunctionBody 0 4))
        (BinaryReaderLogging 0))) = 0"
proof -
  have i0: "indent (BinaryReaderLogging (0::nat)) = 0"
    by (simp add: BinaryReaderLogging_def)
  have f: "fits (IndexCall OnTypeCount 1) 2"
    by (simp add: fits_def s_indent_len_eq)
  have h: "0 \<le> indent (BinaryReaderLogging (0::nat))"
    "indent (BinaryReaderLogging (0::nat)) + INDENT_SIZE \<le> int s_indent_len"
    by (simp_all add: i0 INDENT_SIZE_def s_indent_len_eq)
  show ?thesis
    using h f section_depth_steps [OF h, where X = sample_externals
      and rd = accepting_delegate and name = BeginTypeSection and sz = 12
      and ename = EndTypeSection and c = "IndexCall OnTypeCount 1" and k = 0 and body_size = 4]
    by (simp add: i0 INDENT_SIZE_def)
qed

subsection \<open>C7: End calls\<close>

text \<open>
  C7 as stated fails for the end calls of regions inside a section:
  \<^verbatim>\<open>EndFunctionBody\<close> (and \<^verbatim>\<open>EndGlobal\<close>, \<^verbatim>\<open>EndGlobalInitExpr\<close>, ...) is a
  \<^verbatim>\<open>DEFINE_INDEX\<close> method: it does not dedent, and its line carries the index.
\<close>

theorem end_call_counterexample:
  "stream (snd (invoke sample_externals accepting_delegate (IndexCall EndFunctionBody 7)
        ((BinaryReaderLogging 0)\<lparr>indent := 4\<rparr>))) = ''    EndFunctionBody(7)\<newline>''
   \<and> indent (snd (invoke sample_externals accepting_delegate (IndexCall EndFunctionBody 7)
        ((BinaryReaderLogging 0)\<lparr>indent := 4\<rparr>))) = 4"
  by (simp add: exec_simps BinaryReaderLogging_def stream_def fmt_u_def dec.simps digit_def
      replicate_4)

text \<open>
  C7, amended. Every \<^verbatim>\<open>DEFINE_END\<close> method (\<^verbatim>\<open>EndModule\<close>, \<^verbatim>\<open>EndCustomSection\<close>
  and the end of each section) dedents first and writes then: its line is
  padded by the decreased depth and consists of the method's name alone; when
  the assertion of \<^verbatim>\<open>Dedent\<close> fails, nothing has been written. The end calls
  generated by \<^verbatim>\<open>DEFINE_INDEX\<close> keep the depth and print \<open>name(index)\<close>.
\<close>

theorem end_dedents_then_logs:
  "(INDENT_SIZE \<le> indent w \<and> indent w - INDENT_SIZE \<le> int s_indent_len \<longrightarrow>
      fst (invoke X rd (EndCall name) w) = Inr (fst (rd (EndCall name) (reader w)))
      \<and> indent (snd (invoke X rd (EndCall name) w)) = indent w - INDENT_SIZE
      \<and> stream (snd (invoke X rd (EndCall name) w))
          = stream w @ replicate (nat (indent w - INDENT_SIZE)) (CHR '' '')
              @ end_name_str name @ ''\<newline>'')
   \<and> (indent w < INDENT_SIZE \<longrightarrow>
        invoke X rd (EndCall name) w
          = (Inl AssertionFailed, w\<lparr>indent := indent w - INDENT_SIZE\<rparr>))
   \<and> (0 \<le> indent w \<and> indent w \<le> int s_indent_len \<longrightarrow>
        indent (snd (invoke X rd (IndexCall iname value) w)) = indent w
        \<and> stream (snd (invoke X rd (IndexCall iname value) w))
            = stream w @ replicate (nat (indent w)) (CHR '' '')
                @ index_name_str iname @ ''('' @ fmt_u value @ '')\<newline>'')"
  by (simp add: exec_simps stream_def Let_def)

theorem end_dedents_then_logs_witness:
  "stream (snd (invoke sample_externals accepting_delegate (EndCall EndTypeSection)
        ((BinaryReaderLogging 0)\<lparr>indent := 6\<rparr>))) = ''    EndTypeSection\<newline>''
   \<and> indent (snd (invoke sample_externals accepting_delegate (EndCall EndTypeSection)
        ((BinaryReaderLogging 0)\<lparr>indent := 6\<rparr>))) = 4
   \<and> invoke sample_externals accepting_delegate (EndCall EndTypeSection) (BinaryReaderLogging 0)
       = (Inl AssertionFailed, (BinaryReaderLogging 0)\<lparr>indent := - 2\<rparr>)"
  using end_dedents_then_logs [where w = "(BinaryReaderLogging (0::nat))\<lparr>indent := 6\<rparr>"
      and X = sample_externals and rd = accepting_delegate and name = EndTypeSection]
    end_dedents_then_logs [where w = "BinaryReaderLogging (0::nat)"
      and X = sample_externals and rd = accepting_delegate and name = EndTypeSection]
  by (simp add: BinaryReaderLogging_def s_indent_len_eq INDENT_SIZE_def stream_def replicate_4)

subsection \<open>C8: Vector lanes\<close>

text \<open>
  C8. Vector lane order. At a depth inside the buffer, the line of
  \<^verbatim>\<open>OnV128ConstExpr\<close> (and of \<^verbatim>\<open>OnInitExprV128ConstExpr\<close>) holds four fields,
  each introduced by \<open>0x\<close>: the first is lane 0, the second lane 1, the third
  lane 2, the fourth lane 3. Every field is eight hexadecimal digits, and read
  back as hexadecimal it is the lane's value; nothing else is printed for the
  vector.
\<close>

theorem v128_lanes_in_order:
  assumes "0 \<le> indent w" and "indent w \<le> int s_indent_len"
  shows "stream (snd (invoke X rd (Expr (OnV128ConstExpr value_bits)) w))
      = stream w @ replicate (nat (indent w)) (CHR '' '') @ ''OnV128ConstExpr(0x''
          @ fmt_08x (v value_bits 0) @ '' 0x'' @ fmt_08x (v value_bits 1) @ '' 0x''
          @ fmt_08x (v value_bits 2) @ '' 0x'' @ fmt_08x (v value_bits 3) @ '')\<newline>''
    \<and> stream (snd (invoke X rd (InitExpr (OnInitExprV128ConstExpr index value_bits)) w))
      = stream w @ replicate (nat (indent w)) (CHR '' '') @ ''OnInitExprV128ConstExpr(index: ''
          @ fmt_u index @ '' value: ( 0x''
          @ fmt_08x (v value_bits 0) @ '' 0x'' @ fmt_08x (v value_bits 1) @ '' 0x''
          @ fmt_08x (v value_bits 2) @ '' 0x'' @ fmt_08x (v value_bits 3) @ ''))\<newline>''
    \<and> map length [fmt_08x (v value_bits 0), fmt_08x (v value_bits 1),
                   fmt_08x (v value_bits 2), fmt_08x (v value_bits 3)] = [8, 8, 8, 8]
    \<and> map hex_value [fmt_08x (v value_bits 0), fmt_08x (v value_bits 1),
                      fmt_08x (v value_bits 2), fmt_08x (v value_bits 3)]
        = [Some (unat (v value_bits 0)), Some (unat (v value_bits 1)),
           Some (unat (v value_bits 2)), Some (unat (v value_bits 3))]"
  using assms by (simp add: exec_simps stream_def hex_value_fmt_08x)

theorem v128_lanes_in_order_witness:
  "stream (snd (invoke sample_externals accepting_delegate
       (Expr (OnV128ConstExpr (V128 0x11111111 0x22222222 0x33333333 0x44444444)))
       (BinaryReaderLogging 0)))
     = ''OnV128ConstExpr(0x11111111 0x22222222 0x33333333 0x44444444)\<newline>''
   \<and> map hex_value [''11111111'', ''22222222'', ''33333333'', ''44444444'']
     = [Some 0x11111111, Some 0x22222222, Some 0x33333333, Some 0x44444444]"
proof -
  have h: "0 \<le> indent (BinaryReaderLogging (0::nat))"
    "indent (BinaryReaderLogging (0::nat)) \<le> int s_indent_len"
    by (simp_all add: BinaryReaderLogging_def)
  have f: "fmt_08x 0x11111111 = ''11111111''" "fmt_08x 0x22222222 = ''22222222''"
    "fmt_08x 0x33333333 = ''33333333''" "fmt_08x 0x44444444 = ''44444444''"
    by (simp_all add: fmt_08x_def hex.simps digit_def)
  show ?thesis
    using v128_lanes_in_order [OF h, where X = sample_externals and rd = accepting_delegate
      and value_bits = "V128 0x11111111 0x22222222 0x33333333 0x44444444"]
    by (simp add: f BinaryReaderLogging_def stream_def)
qed

subsection \<open>C9: Leaving a region at depth zero\<close>

text \<open>
  C9. \<^verbatim>\<open>Dedent\<close> decreases the depth by \<^verbatim>\<open>INDENT_SIZE\<close>. When the depth before the
  call is at least one step, the assertion holds and the call returns. When it
  is less (in particular zero), the assertion fails: the outcome is the fault
  \<^term>\<open>AssertionFailed\<close>, not a value; a \<^verbatim>\<open>DEFINE_END\<close> method called at such a
  depth ends there, with nothing written, no call forwarded and no \<^verbatim>\<open>Result\<close>
  returned.
\<close>

theorem Dedent_assertion:
  "(INDENT_SIZE \<le> indent w \<longrightarrow>
      Dedent w = (Inr (), w\<lparr>indent := indent w - INDENT_SIZE\<rparr>))
   \<and> (indent w < INDENT_SIZE \<longrightarrow>
      Dedent w = (Inl AssertionFailed, w\<lparr>indent := indent w - INDENT_SIZE\<rparr>))
   \<and> (indent w < INDENT_SIZE \<longrightarrow>
      invoke X rd (EndCall name) w
        = (Inl AssertionFailed, w\<lparr>indent := indent w - INDENT_SIZE\<rparr>))"
  by (simp add: Dedent_def DEFINE_END_def Let_def)

theorem Dedent_assertion_witness:
  "Dedent ((BinaryReaderLogging (0::nat))\<lparr>indent := 2\<rparr>)
     = (Inr (), (BinaryReaderLogging 0)\<lparr>indent := 0\<rparr>)
   \<and> Dedent (BinaryReaderLogging (0::nat))
     = (Inl AssertionFailed, (BinaryReaderLogging 0)\<lparr>indent := - 2\<rparr>)
   \<and> invoke sample_externals accepting_delegate (EndCall EndModule) (BinaryReaderLogging 0)
     = (Inl AssertionFailed, (BinaryReaderLogging 0)\<lparr>indent := - 2\<rparr>)"
  using Dedent_assertion [where w = "(BinaryReaderLogging (0::nat))\<lparr>indent := 2\<rparr>"]
    Dedent_assertion [where w = "BinaryReaderLogging (0::nat)" and X = sample_externals
      and rd = accepting_delegate and name = EndModule]
  by (simp add: INDENT_SIZE_def BinaryReaderLogging_def)

subsection \<open>C10: The trace does not depend on the results\<close>

text \<open>
  C10. The trace is independent of the delegate's results. (i) Whenever a
  method returns, what it added to the effects is a sequence of writes to the
  stream followed by the one call on the wrapped delegate: the line is complete
  before the delegate is called. (ii) Two runs over the same list of calls,
  started at the same depth with the same stream contents, but with different
  delegates (whatever these return, and whatever their states), leave the same
  bytes on the stream and the same depth, and fault at the same place or not at
  all.
\<close>

theorem trace_independent_of_results:
  fixes rd1 rd2 :: "'c delegate"
  assumes "indent w1 = indent w2" and "stream w1 = stream w2"
  shows "(case invoke X rd1 c w1 of
            (Inr r, w') \<Rightarrow> (\<exists>ss. effects w' = effects w1 @ map StreamWrite ss @ [ReaderCall c])
          | (Inl f, w') \<Rightarrow> (\<exists>ss. effects w' = effects w1 @ map StreamWrite ss))
       \<and> stream (snd (run X rd1 cs w1)) = stream (snd (run X rd2 cs w2))
       \<and> indent (snd (run X rd1 cs w1)) = indent (snd (run X rd2 cs w2))
       \<and> isl (fst (run X rd1 cs w1)) = isl (fst (run X rd2 cs w2))"
proof -
  obtain F :: "int \<Rightarrow> (fault + unit) \<times> int \<times> (State option \<Rightarrow> State option) \<times> string list"
    where F: "\<And>w. invoke X rd1 c w =
      (case F (indent w) of
        (Inl f, d, g, ss) \<Rightarrow>
          (Inl f, w\<lparr>indent := d, state := g (state w),
                     effects := effects w @ map StreamWrite ss\<rparr>)
      | (Inr u, d, g, ss) \<Rightarrow>
          (Inr (fst (rd1 c (reader w))),
           w\<lparr>indent := d, state := g (state w),
              effects := effects w @ map StreamWrite ss @ [ReaderCall c],
              reader := snd (rd1 c (reader w))\<rparr>))"
    using invoke_sem [of X c] by blast
  have "case invoke X rd1 c w1 of
            (Inr r, w') \<Rightarrow> (\<exists>ss. effects w' = effects w1 @ map StreamWrite ss @ [ReaderCall c])
          | (Inl f, w') \<Rightarrow> (\<exists>ss. effects w' = effects w1 @ map StreamWrite ss)"
    by (auto simp: F split: prod.splits sum.splits)
  then show ?thesis
    using run_agree [OF assms, where X = X and ?rd1.0 = rd1 and cs = cs and ?rd2.0 = rd2] by simp
qed

theorem trace_independent_of_results_witness:
  "stream (snd (run sample_externals accepting_delegate sample_module (BinaryReaderLogging 0)))
   = stream (snd (run sample_externals refusing_delegate sample_module (BinaryReaderLogging 7)))"
  using trace_independent_of_results [where ?w1.0 = "BinaryReaderLogging 0"
      and ?w2.0 = "BinaryReaderLogging 7" and X = sample_externals and ?rd1.0 = accepting_delegate
      and ?rd2.0 = refusing_delegate and c = "Core (BeginModule 1)" and cs = sample_module]
  by (simp add: BinaryReaderLogging_def stream_def)

end
